theory Spec2Isabelle
  imports Complex_Main "HOL-Library.List_Lexorder" "HOL-Library.Multiset"
begin

section \<open>JavaScript strings\<close>

text \<open>
  A JavaScript string is a sequence of UTF-16 code units; indexing, \<open>length\<close>,
  \<open>===\<close> and the relational operators all work on code units. A string is
  therefore a list of code units, each a natural number, and \<open><\<close> on strings is
  the lexicographic order of \<open>HOL-Library.List_Lexorder\<close>. ASCII literals are
  written through \<open>S\<close>.
\<close>

type_synonym jsstring = "nat list"

definition S :: "string \<Rightarrow> jsstring" where
  "S s = map of_char s"

text \<open>
  \<open>WhiteSpace\<close> and \<open>LineTerminator\<close> of ECMAScript: what \<open>String.prototype.trim\<close>
  strips and what \<open>\s\<close> matches in a regular expression.
\<close>

definition isSpace :: "nat \<Rightarrow> bool" where
  "isSpace c \<longleftrightarrow>
     c = 9 \<or> c = 10 \<or> c = 11 \<or> c = 12 \<or> c = 13 \<or> c = 32 \<or> c = 160 \<or> c = 0x1680 \<or>
     (0x2000 \<le> c \<and> c \<le> 0x200A) \<or> c = 0x2028 \<or> c = 0x2029 \<or> c = 0x202F \<or>
     c = 0x205F \<or> c = 0x3000 \<or> c = 0xFEFF"

definition trim :: "jsstring \<Rightarrow> jsstring" where
  "trim s = rev (dropWhile isSpace (rev (dropWhile isSpace s)))"

definition isDigit :: "nat \<Rightarrow> bool" where
  "isDigit c \<longleftrightarrow> 48 \<le> c \<and> c \<le> 57"

section \<open>Ranking: \<open>addRank\<close> (src/lib/matchEvents.ts)\<close>

text \<open>
  \<open>addRank(rows, scoreKey)\<close> walks the rows once with the loop state
  \<open>lastScore\<close> (\<open>null\<close> is \<open>None\<close>), \<open>rank\<close> and \<open>i\<close>, and pushes each row
  with its rank. The row type is arbitrary; \<open>sk\<close> reads \<open>Number(r[scoreKey] ?? 0)\<close>,
  a count in every caller, hence an integer. The pushed object \<open>{...r, rank}\<close> is the
  pair of the row and its rank.
\<close>

fun addRank_loop :: "('a \<Rightarrow> int) \<Rightarrow> int option \<Rightarrow> nat \<Rightarrow> nat \<Rightarrow> 'a list \<Rightarrow> ('a \<times> nat) list" where
  "addRank_loop sk lastScore rank i [] = []"
| "addRank_loop sk lastScore rank i (r # rows) =
     (let i' = i + 1; score = sk r in
      if lastScore = None \<or> Some score \<noteq> lastScore
      then (r, i') # addRank_loop sk (Some score) i' i' rows
      else (r, rank) # addRank_loop sk lastScore rank i' rows)"

definition addRank :: "('a \<Rightarrow> int) \<Rightarrow> 'a list \<Rightarrow> ('a \<times> nat) list" where
  "addRank sk rows = addRank_loop sk None 0 0 rows"

section \<open>Failure cache: \<open>shouldSkipFail\<close> (name-map enrichment script)\<close>

datatype FailReason = notfound | ambiguous | no_ja | api_error

record FailEntry =
  fe_key :: jsstring
  fe_reason :: FailReason
  fe_checked_at :: jsstring

text \<open>
  \<open>shouldSkipFail\<close> closes over \<open>failMap\<close>, \<open>nowMs\<close> and \<open>skipMs\<close>; they are
  arguments here. \<open>getTime\<close> stands for \<open>new Date(s).getTime()\<close>, a built-in of the
  language: \<open>None\<close> is \<open>NaN\<close> (an invalid date), \<open>Some t\<close> the epoch milliseconds.
  \<open>skipMs\<close> is \<open>Math.max(0, skipDays) * 24 * 60 * 60 * 1000\<close>.
\<close>

definition skipMs_of :: "real \<Rightarrow> real" where
  "skipMs_of skipDays = max 0 skipDays * 24 * 60 * 60 * 1000"

definition shouldSkipFail ::
  "(jsstring \<rightharpoonup> FailEntry) \<Rightarrow> (jsstring \<Rightarrow> int option) \<Rightarrow> int \<Rightarrow> real \<Rightarrow> jsstring \<Rightarrow> bool" where
  "shouldSkipFail failMap getTime nowMs skipMs k =
     (case failMap k of
        None \<Rightarrow> False
      | Some f \<Rightarrow>
          if fe_reason f = api_error then False
          else (case getTime (fe_checked_at f) of
                  None \<Rightarrow> False
                | Some t \<Rightarrow> real_of_int (nowMs - t) < skipMs))"

section \<open>Tabular reader: \<open>parseCsv\<close> (src/lib/csvSimple.ts)\<close>

text \<open>
  The character loop of \<open>parseCsv\<close> keeps four variables: the finished \<open>rows\<close>, the
  fields of the current \<open>row\<close>, the current field \<open>cur\<close> and the flag \<open>inQuotes\<close>.
  The loop runs over the remaining input, so the look-ahead \<open>s[i + 1]\<close> is the head of
  the rest (and \<open>undefined\<close>, which is not a quote, at the end of the input).
  The first branch of the line-feed case keeps \<open>row\<close> as it is: the source leaves the
  iteration by \<open>continue\<close> before \<open>row = []\<close>.
\<close>

record scanState =
  st_inQuotes :: bool
  st_cur :: jsstring
  st_row :: "jsstring list"
  st_rows :: "jsstring list list"

definition stripCR :: "jsstring \<Rightarrow> jsstring" where
  "stripCR x = (if x \<noteq> [] \<and> last x = 13 then butlast x else x)"

definition stripBOM :: "jsstring \<Rightarrow> jsstring" where
  "stripBOM text = (case text of [] \<Rightarrow> [] | c # cs \<Rightarrow> if c = 0xFEFF then cs else c # cs)"

fun scanLoop :: "jsstring \<Rightarrow> scanState \<Rightarrow> scanState" where
  "scanLoop [] st = st"
| "scanLoop (ch # rest) st =
     (if st_inQuotes st then
        (if ch = 34 then
           (case rest of
              [] \<Rightarrow> scanLoop rest (st\<lparr>st_inQuotes := False\<rparr>)
            | c2 # rest' \<Rightarrow>
                if c2 = 34 then scanLoop rest' (st\<lparr>st_cur := st_cur st @ [34]\<rparr>)
                else scanLoop rest (st\<lparr>st_inQuotes := False\<rparr>))
         else scanLoop rest (st\<lparr>st_cur := st_cur st @ [ch]\<rparr>))
      else if ch = 34 then scanLoop rest (st\<lparr>st_inQuotes := True\<rparr>)
      else if ch = 44 then scanLoop rest (st\<lparr>st_row := st_row st @ [st_cur st], st_cur := []\<rparr>)
      else if ch = 10 then
        (let row = st_row st @ [st_cur st] in
         if length row = 1 \<and> row ! 0 = [] \<and> length (st_rows st) = 0
         then scanLoop rest (st\<lparr>st_row := row, st_cur := []\<rparr>)
         else scanLoop rest
                (st\<lparr>st_rows := st_rows st @ [map stripCR row], st_row := [], st_cur := []\<rparr>))
      else scanLoop rest (st\<lparr>st_cur := st_cur st @ [ch]\<rparr>))"

definition scanInit :: scanState where
  "scanInit = \<lparr>st_inQuotes = False, st_cur = [], st_row = [], st_rows = []\<rparr>"

text \<open>After the loop the last field and the last row are pushed, whatever \<open>inQuotes\<close> is.\<close>

definition finishRows :: "scanState \<Rightarrow> jsstring list list" where
  "finishRows st = st_rows st @ [map stripCR (st_row st @ [st_cur st])]"

definition rawRows :: "jsstring \<Rightarrow> jsstring list list" where
  "rawRows text = finishRows (scanLoop (stripBOM text) scanInit)"

definition cleanedRows :: "jsstring \<Rightarrow> jsstring list list" where
  "cleanedRows text = filter (\<lambda>r. \<exists>x \<in> set r. trim x \<noteq> []) (rawRows text)"

text \<open>
  \<open>r[j] ?? ""\<close>: an index past the end of the row reads \<open>undefined\<close>, replaced by the
  empty string.
\<close>

definition nthOrEmpty :: "jsstring list \<Rightarrow> nat \<Rightarrow> jsstring" where
  "nthOrEmpty r j = (if j < length r then r ! j else [])"

text \<open>
  The object built for a data row starts as \<open>{}\<close> and is filled by \<open>obj[k] = v\<close>: a
  finite map from property names to values. The one name that behaves differently
  on a plain object is \<open>__proto__\<close>: the assignment reaches the inherited setter, which
  ignores a string, and no property is created. The assignments run over
  \<open>j = 0 .. header.length - 1\<close> in order, so of two header cells with one name the
  later one decides the value.
\<close>

definition setField :: "(jsstring \<rightharpoonup> jsstring) \<Rightarrow> jsstring \<Rightarrow> jsstring \<Rightarrow> (jsstring \<rightharpoonup> jsstring)" where
  "setField obj k v = (if k = S ''__proto__'' then obj else obj(k \<mapsto> v))"

definition mkObj :: "jsstring list \<Rightarrow> jsstring list \<Rightarrow> (jsstring \<rightharpoonup> jsstring)" where
  "mkObj header r =
     foldl (\<lambda>obj j. setField obj (header ! j) (trim (nthOrEmpty r j))) Map.empty [0..<length header]"

definition parseCsv :: "jsstring \<Rightarrow> (jsstring \<rightharpoonup> jsstring) list" where
  "parseCsv text =
     (case cleanedRows text of
        [] \<Rightarrow> []
      | h # rs \<Rightarrow> map (mkObj (map trim h)) rs)"

section \<open>Match events (src/lib/matchEvents.ts)\<close>

record MatchEvent =
  me_competition :: jsstring
  me_edition :: jsstring
  me_match_id :: jsstring
  me_event_id :: jsstring
  me_event_type :: jsstring
  me_team :: jsstring
  me_player :: jsstring
  me_assist :: jsstring
  me_minute :: jsstring
  me_period :: jsstring
  me_round :: jsstring
  me_vs :: jsstring
  me_note :: jsstring

record GoalRankRow =
  gr_player :: jsstring
  gr_team :: jsstring
  gr_goals :: int

record AssistRankRow =
  ar_player :: jsstring
  ar_team :: jsstring
  ar_assists :: int

record PlayerGARow =
  pg_player :: jsstring
  pg_goals :: int
  pg_assists :: int
  pg_ga :: int

record EditionSubtotalRow =
  es_edition :: jsstring
  es_goals :: int
  es_assists :: int
  es_ga :: int

text \<open>
  \<open>norm\<close> is \<open>String(v ?? "").trim()\<close>; on a string it is \<open>trim\<close>, and a field that
  is absent from a parsed row reads as the empty string. \<open>upper\<close> applies
  \<open>String.prototype.toUpperCase\<close>, a built-in of the language that maps over all of
  Unicode: it is the argument \<open>up\<close> of every function that needs it, and
  \<open>asciiUpper\<close> is what it does on ASCII text.
\<close>

definition norm :: "jsstring \<Rightarrow> jsstring" where
  "norm v = trim v"

definition upper :: "(jsstring \<Rightarrow> jsstring) \<Rightarrow> jsstring \<Rightarrow> jsstring" where
  "upper up v = up (norm v)"

definition asciiUpper :: "jsstring \<Rightarrow> jsstring" where
  "asciiUpper s = map (\<lambda>c. if 97 \<le> c \<and> c \<le> 122 then c - 32 else c) s"

definition asciiLower :: "jsstring \<Rightarrow> jsstring" where
  "asciiLower s = map (\<lambda>c. if 65 \<le> c \<and> c \<le> 90 then c + 32 else c) s"

fun js_includes :: "jsstring \<Rightarrow> jsstring \<Rightarrow> bool" where
  "js_includes [] ys \<longleftrightarrow> ys = []"
| "js_includes (x # xs) ys \<longleftrightarrow> take (length ys) (x # xs) = ys \<or> js_includes xs ys"

definition field :: "(jsstring \<rightharpoonup> jsstring) \<Rightarrow> jsstring \<Rightarrow> jsstring" where
  "field r k = (case r k of None \<Rightarrow> [] | Some v \<Rightarrow> v)"

text \<open>The note marker is the text PK followed by the character U+6226.\<close>

definition isShootout :: "(jsstring \<Rightarrow> jsstring) \<Rightarrow> MatchEvent \<Rightarrow> bool" where
  "isShootout up e =
     (let p = upper up (me_period e); n = norm (me_note e) in
      p = S ''PSO'' \<or> p = S ''PKSO'' \<or> js_includes n [80, 75, 0x6226])"

definition isGoalEvent :: "(jsstring \<Rightarrow> jsstring) \<Rightarrow> MatchEvent \<Rightarrow> bool" where
  "isGoalEvent up e = (let t = upper up (me_event_type e) in t = S ''GOAL'' \<or> t = S ''PK'')"

text \<open>
  \<open>loadMatchEvents\<close> reads the events file; its content is the argument \<open>csv\<close>.
  The aggregation functions below call \<open>loadMatchEvents()\<close> first: its value is their
  argument \<open>events\<close>.
\<close>

definition loadMatchEvents :: "(jsstring \<Rightarrow> jsstring) \<Rightarrow> jsstring \<Rightarrow> MatchEvent list" where
  "loadMatchEvents up csv =
     map (\<lambda>r. \<lparr>me_competition = norm (field r (S ''competition'')),
               me_edition = norm (field r (S ''edition'')),
               me_match_id = norm (field r (S ''match_id'')),
               me_event_id = norm (field r (S ''event_id'')),
               me_event_type = upper up (field r (S ''event_type'')),
               me_team = norm (field r (S ''team'')),
               me_player = norm (field r (S ''player'')),
               me_assist = norm (field r (S ''assist'')),
               me_minute = norm (field r (S ''minute'')),
               me_period = norm (field r (S ''period'')),
               me_round = norm (field r (S ''round'')),
               me_vs = norm (field r (S ''vs'')),
               me_note = norm (field r (S ''note''))\<rparr>)
         (parseCsv csv)"

text \<open>
  A JavaScript \<open>Map\<close> keeps its entries in insertion order: an association list with
  distinct keys. \<open>map.set\<close> of a new key appends; \<open>map.get(key)!.f += 1\<close> updates the
  entry in place.
\<close>

definition mapHas :: "('k \<times> 'v) list \<Rightarrow> 'k \<Rightarrow> bool" where
  "mapHas m k \<longleftrightarrow> map_of m k \<noteq> None"

definition mapAdd :: "('k \<times> 'v) list \<Rightarrow> 'k \<Rightarrow> 'v \<Rightarrow> ('k \<times> 'v) list" where
  "mapAdd m k v = (if mapHas m k then m else m @ [(k, v)])"

definition mapUpd :: "('k \<times> 'v) list \<Rightarrow> 'k \<Rightarrow> ('v \<Rightarrow> 'v) \<Rightarrow> ('k \<times> 'v) list" where
  "mapUpd m k f = map (\<lambda>(k', v). if k' = k then (k', f v) else (k', v)) m"

text \<open>
  \<open>Array.prototype.sort\<close> is stable; with a comparator that orders the rows
  consistently its result is the stable insertion sort.
\<close>

fun insertBy :: "('a \<Rightarrow> 'a \<Rightarrow> int) \<Rightarrow> 'a \<Rightarrow> 'a list \<Rightarrow> 'a list" where
  "insertBy cmp x [] = [x]"
| "insertBy cmp x (y # ys) = (if cmp x y \<le> 0 then x # y # ys else y # insertBy cmp x ys)"

definition sortBy :: "('a \<Rightarrow> 'a \<Rightarrow> int) \<Rightarrow> 'a list \<Rightarrow> 'a list" where
  "sortBy cmp xs = foldr (insertBy cmp) xs []"

definition goalKey :: "jsstring \<Rightarrow> jsstring \<Rightarrow> jsstring" where
  "goalKey p t = p @ S ''__'' @ t"

definition goalStep ::
  "(jsstring \<Rightarrow> jsstring) \<Rightarrow> jsstring \<Rightarrow> jsstring \<Rightarrow> (jsstring \<times> GoalRankRow) list \<Rightarrow> MatchEvent
   \<Rightarrow> (jsstring \<times> GoalRankRow) list" where
  "goalStep up competition edition m e =
     (if norm (me_competition e) \<noteq> competition then m
      else if norm (me_edition e) \<noteq> edition then m
      else if isShootout up e then m
      else if \<not> isGoalEvent up e then m
      else if me_player e = [] \<or> me_team e = [] then m
      else let k = goalKey (me_player e) (me_team e);
               m' = mapAdd m k \<lparr>gr_player = me_player e, gr_team = me_team e, gr_goals = 0\<rparr>
           in mapUpd m' k (\<lambda>r. r\<lparr>gr_goals := gr_goals r + 1\<rparr>))"

definition getGoalRanking ::
  "(jsstring \<Rightarrow> jsstring) \<Rightarrow> MatchEvent list \<Rightarrow> jsstring \<Rightarrow> jsstring \<Rightarrow> GoalRankRow list" where
  "getGoalRanking up events competition edition =
     sortBy (\<lambda>a b. gr_goals b - gr_goals a)
       (map snd (foldl (goalStep up competition edition) [] events))"

text \<open>
  The repository holds a second copy of the file, in which \<open>getGoalRanking\<close> compares
  \<open>e.event_type\<close> with the text GOAL only.
\<close>

definition goalStep_lib ::
  "(jsstring \<Rightarrow> jsstring) \<Rightarrow> jsstring \<Rightarrow> jsstring \<Rightarrow> (jsstring \<times> GoalRankRow) list \<Rightarrow> MatchEvent
   \<Rightarrow> (jsstring \<times> GoalRankRow) list" where
  "goalStep_lib up competition edition m e =
     (if norm (me_competition e) \<noteq> competition then m
      else if norm (me_edition e) \<noteq> edition then m
      else if isShootout up e then m
      else if me_event_type e \<noteq> S ''GOAL'' then m
      else if me_player e = [] \<or> me_team e = [] then m
      else let k = goalKey (me_player e) (me_team e);
               m' = mapAdd m k \<lparr>gr_player = me_player e, gr_team = me_team e, gr_goals = 0\<rparr>
           in mapUpd m' k (\<lambda>r. r\<lparr>gr_goals := gr_goals r + 1\<rparr>))"

definition getGoalRanking_lib ::
  "(jsstring \<Rightarrow> jsstring) \<Rightarrow> MatchEvent list \<Rightarrow> jsstring \<Rightarrow> jsstring \<Rightarrow> GoalRankRow list" where
  "getGoalRanking_lib up events competition edition =
     sortBy (\<lambda>a b. gr_goals b - gr_goals a)
       (map snd (foldl (goalStep_lib up competition edition) [] events))"

definition assistStep ::
  "(jsstring \<Rightarrow> jsstring) \<Rightarrow> jsstring \<Rightarrow> jsstring \<Rightarrow> (jsstring \<times> AssistRankRow) list \<Rightarrow> MatchEvent
   \<Rightarrow> (jsstring \<times> AssistRankRow) list" where
  "assistStep up competition edition m e =
     (if norm (me_competition e) \<noteq> competition then m
      else if norm (me_edition e) \<noteq> edition then m
      else if isShootout up e then m
      else if \<not> isGoalEvent up e then m
      else let a = norm (me_assist e) in
           if a = [] then m
           else let team = norm (me_team e);
                    k = goalKey a team;
                    m' = mapAdd m k \<lparr>ar_player = a, ar_team = team, ar_assists = 0\<rparr>
                in mapUpd m' k (\<lambda>r. r\<lparr>ar_assists := ar_assists r + 1\<rparr>))"

definition getAssistRanking ::
  "(jsstring \<Rightarrow> jsstring) \<Rightarrow> MatchEvent list \<Rightarrow> jsstring \<Rightarrow> jsstring \<Rightarrow> AssistRankRow list" where
  "getAssistRanking up events competition edition =
     sortBy (\<lambda>a b. ar_assists b - ar_assists a)
       (map snd (foldl (assistStep up competition edition) [] events))"

definition careerStep ::
  "(jsstring \<Rightarrow> jsstring) \<Rightarrow> jsstring \<Rightarrow> jsstring \<Rightarrow> (jsstring \<times> PlayerGARow) list \<Rightarrow> MatchEvent
   \<Rightarrow> (jsstring \<times> PlayerGARow) list" where
  "careerStep up competition team m e =
     (if norm (me_competition e) \<noteq> competition then m
      else if norm (me_team e) \<noteq> team then m
      else if isShootout up e then m
      else if \<not> isGoalEvent up e then m
      else let p = norm (me_player e) in
           if p = [] then m
           else let m1 = mapAdd m p \<lparr>pg_player = p, pg_goals = 0, pg_assists = 0, pg_ga = 0\<rparr>;
                    m2 = mapUpd m1 p (\<lambda>r. r\<lparr>pg_goals := pg_goals r + 1\<rparr>);
                    a = norm (me_assist e)
                in if a \<noteq> []
                   then mapUpd (mapAdd m2 a \<lparr>pg_player = a, pg_goals = 0, pg_assists = 0, pg_ga = 0\<rparr>)
                          a (\<lambda>r. r\<lparr>pg_assists := pg_assists r + 1\<rparr>)
                   else m2)"

text \<open>
  \<open>localeCompare(_, "ja")\<close> is a built-in collation: the argument \<open>lc\<close>. The comparator
  \<open>x || y || z\<close> takes the first operand that is not zero.
\<close>

definition careerCmp :: "(jsstring \<Rightarrow> jsstring \<Rightarrow> int) \<Rightarrow> PlayerGARow \<Rightarrow> PlayerGARow \<Rightarrow> int" where
  "careerCmp lc x y =
     (if pg_goals y - pg_goals x \<noteq> 0 then pg_goals y - pg_goals x
      else if pg_assists y - pg_assists x \<noteq> 0 then pg_assists y - pg_assists x
      else lc (pg_player x) (pg_player y))"

definition getTeamCareerGA ::
  "(jsstring \<Rightarrow> jsstring) \<Rightarrow> (jsstring \<Rightarrow> jsstring \<Rightarrow> int) \<Rightarrow> MatchEvent list \<Rightarrow> jsstring \<Rightarrow> jsstring
   \<Rightarrow> PlayerGARow list" where
  "getTeamCareerGA up lc events competition team =
     sortBy (careerCmp lc)
       (map (\<lambda>r. r\<lparr>pg_ga := pg_goals r + pg_assists r\<rparr>)
          (map snd (foldl (careerStep up competition team) [] events)))"

definition subtotalStep ::
  "(jsstring \<Rightarrow> jsstring) \<Rightarrow> jsstring \<Rightarrow> jsstring \<Rightarrow> (jsstring \<times> int \<times> int) list \<Rightarrow> MatchEvent
   \<Rightarrow> (jsstring \<times> int \<times> int) list" where
  "subtotalStep up competition team m e =
     (if norm (me_competition e) \<noteq> competition then m
      else if norm (me_team e) \<noteq> team then m
      else if isShootout up e then m
      else if \<not> isGoalEvent up e then m
      else let ed = norm (me_edition e) in
           if ed = [] then m
           else let m1 = mapAdd m ed (0, 0);
                    m2 = mapUpd m1 ed (\<lambda>(g, a). (g + 1, a));
                    a = norm (me_assist e)
                in if a \<noteq> [] then mapUpd m2 ed (\<lambda>(g, a). (g, a + 1)) else m2)"

text \<open>
  The subtotals are sorted by \<open>Number(a.edition) - Number(b.edition)\<close>; \<open>numCmp a b\<close> is
  the sign of that difference (zero where it is \<open>NaN\<close>, as the sort reads it).
\<close>

definition getTeamEditionSubtotals ::
  "(jsstring \<Rightarrow> jsstring) \<Rightarrow> (jsstring \<Rightarrow> jsstring \<Rightarrow> int) \<Rightarrow> MatchEvent list \<Rightarrow> jsstring \<Rightarrow> jsstring
   \<Rightarrow> EditionSubtotalRow list" where
  "getTeamEditionSubtotals up numCmp events competition team =
     sortBy (\<lambda>a b. numCmp (es_edition a) (es_edition b))
       (map (\<lambda>(edition, g, a). \<lparr>es_edition = edition, es_goals = g, es_assists = a, es_ga = g + a\<rparr>)
          (foldl (subtotalStep up competition team) [] events))"

text \<open>
  The guards of \<open>getGoalRanking\<close> taken together: an event is counted when each
  \<open>continue\<close> of the loop is passed. \<open>eventKey\<close> and \<open>rowKey\<close> are the map key of an
  event and of a result row.
\<close>

definition countedGoal :: "(jsstring \<Rightarrow> jsstring) \<Rightarrow> jsstring \<Rightarrow> jsstring \<Rightarrow> MatchEvent \<Rightarrow> bool" where
  "countedGoal up competition edition e \<longleftrightarrow>
     norm (me_competition e) = competition \<and> norm (me_edition e) = edition \<and>
     \<not> isShootout up e \<and> isGoalEvent up e \<and> me_player e \<noteq> [] \<and> me_team e \<noteq> []"

definition eventKey :: "MatchEvent \<Rightarrow> jsstring" where
  "eventKey e = goalKey (me_player e) (me_team e)"

definition rowKey :: "GoalRankRow \<Rightarrow> jsstring" where
  "rowKey r = goalKey (gr_player r) (gr_team r)"

text \<open>
  The counting rule in the words of the specification: the events of the competition
  and edition whose type is a goal type, shootout-period events excluded.
\<close>

definition claimedGoal :: "(jsstring \<Rightarrow> jsstring) \<Rightarrow> jsstring \<Rightarrow> jsstring \<Rightarrow> MatchEvent \<Rightarrow> bool" where
  "claimedGoal up competition edition e \<longleftrightarrow>
     norm (me_competition e) = competition \<and> norm (me_edition e) = edition \<and>
     isGoalEvent up e \<and> \<not> isShootout up e"

text \<open>An event with the given competition, edition, type, team, player, period and note.\<close>

definition mkEvent ::
  "jsstring \<Rightarrow> jsstring \<Rightarrow> jsstring \<Rightarrow> jsstring \<Rightarrow> jsstring \<Rightarrow> jsstring \<Rightarrow> jsstring \<Rightarrow> jsstring
   \<Rightarrow> MatchEvent" where
  "mkEvent c ed ty team player assist period note =
     \<lparr>me_competition = c, me_edition = ed, me_match_id = [], me_event_id = [],
      me_event_type = ty, me_team = team, me_player = player, me_assist = assist,
      me_minute = [], me_period = period, me_round = [], me_vs = [], me_note = note\<rparr>"

section \<open>Club squads (src/lib/clubSquads.ts)\<close>

datatype ClubWindow = summer | winter

record ClubSquadRow =
  cs_season :: jsstring
  cs_window :: ClubWindow
  cs_league :: jsstring
  cs_club :: jsstring
  cs_league_key :: jsstring
  cs_club_key :: jsstring
  cs_club_shirt_no :: jsstring
  cs_position_primary :: jsstring
  cs_is_star :: jsstring
  cs_name_en :: jsstring
  cs_birth_date :: jsstring
  cs_height_cm :: "real option"
  cs_snapshot_date :: jsstring
  cs_name_ja :: jsstring
  cs_nationality :: jsstring
  cs_foot :: jsstring
  cs_join_date :: jsstring
  cs_prev_club :: jsstring
  cs_contract_until :: jsstring
  cs_source :: jsstring
  cs_notes :: jsstring

text \<open>
  \<open>parseCSVLine\<close>: a quote toggles \<open>inQuotes\<close>, except that a quote followed by a
  quote inside quotes is one literal quote; a comma outside quotes ends the field.
\<close>

fun csvLineLoop :: "jsstring \<Rightarrow> bool \<Rightarrow> jsstring \<Rightarrow> jsstring list \<Rightarrow> jsstring list" where
  "csvLineLoop [] inQuotes cur out = out @ [cur]"
| "csvLineLoop (ch # rest) inQuotes cur out =
     (if ch = 34 then
        (case rest of
           [] \<Rightarrow> csvLineLoop rest (\<not> inQuotes) cur out
         | c2 # rest' \<Rightarrow>
             if inQuotes \<and> c2 = 34 then csvLineLoop rest' inQuotes (cur @ [34]) out
             else csvLineLoop rest (\<not> inQuotes) cur out)
      else if ch = 44 \<and> \<not> inQuotes then csvLineLoop rest inQuotes [] (out @ [cur])
      else csvLineLoop rest inQuotes (cur @ [ch]) out)"

definition parseCSVLine :: "jsstring \<Rightarrow> jsstring list" where
  "parseCSVLine line = csvLineLoop line False [] []"

text \<open>
  \<open>raw.split(/\r?\n/)\<close>: the text is cut at every line feed, and a carriage return
  just before the line feed belongs to the separator. The piece after the last line
  feed is kept as it is.
\<close>

fun splitLines :: "jsstring \<Rightarrow> jsstring \<Rightarrow> jsstring list" where
  "splitLines [] cur = [cur]"
| "splitLines (c # cs) cur =
     (if c = 10 then stripCR cur # splitLines cs [] else splitLines cs (cur @ [c]))"

definition readCSV :: "jsstring \<Rightarrow> (jsstring \<rightharpoonup> jsstring) list" where
  "readCSV content =
     (let raw = stripBOM content;
          lines = filter (\<lambda>l. length (trim l) > 0) (splitLines raw [])
      in case lines of
           [] \<Rightarrow> []
         | h # rest \<Rightarrow>
             (let header = map trim (parseCSVLine h)
              in map (\<lambda>line. mkObj header (parseCSVLine line)) rest))"

text \<open>
  \<open>Number\<close> and \<open>toLowerCase\<close> are built-ins: \<open>num t\<close> is \<open>Number(t)\<close> where that is
  finite and \<open>None\<close> otherwise, \<open>low\<close> is \<open>toLowerCase\<close>.
\<close>

definition numOrNull :: "(jsstring \<Rightarrow> real option) \<Rightarrow> jsstring \<Rightarrow> real option" where
  "numOrNull num s = (let t = trim s in if t = [] then None else num t)"

definition normalizeWindow :: "(jsstring \<Rightarrow> jsstring) \<Rightarrow> jsstring \<Rightarrow> ClubWindow" where
  "normalizeWindow low v = (let s = low (trim v) in if s = S ''winter'' then winter else summer)"

text \<open>
  \<open>loadClubSquads\<close> reads the squads file, whose content is the argument, and walks
  the parsed rows; a row without one of the two keys is left by \<open>continue\<close>.
\<close>

fun squadRows ::
  "(jsstring \<Rightarrow> jsstring) \<Rightarrow> (jsstring \<Rightarrow> real option) \<Rightarrow> (jsstring \<rightharpoonup> jsstring) list
   \<Rightarrow> ClubSquadRow list" where
  "squadRows low num [] = []"
| "squadRows low num (r # rows) =
     (let league_key = trim (field r (S ''league_key''));
          club_key = trim (field r (S ''club_key''))
      in if league_key = [] \<or> club_key = [] then squadRows low num rows
         else \<lparr>cs_season = trim (field r (S ''season'')),
               cs_window = normalizeWindow low (field r (S ''window'')),
               cs_league = field r (S ''league''),
               cs_club = field r (S ''club''),
               cs_league_key = league_key,
               cs_club_key = club_key,
               cs_club_shirt_no = field r (S ''club_shirt_no''),
               cs_position_primary = field r (S ''position_primary''),
               cs_is_star = field r (S ''is_star''),
               cs_name_en = field r (S ''name_en''),
               cs_birth_date = field r (S ''birth_date''),
               cs_height_cm = numOrNull num (field r (S ''height_cm'')),
               cs_snapshot_date = field r (S ''snapshot_date''),
               cs_name_ja = field r (S ''name_ja''),
               cs_nationality = field r (S ''nationality''),
               cs_foot = field r (S ''foot''),
               cs_join_date = field r (S ''join_date''),
               cs_prev_club = field r (S ''prev_club''),
               cs_contract_until = field r (S ''contract_until''),
               cs_source = field r (S ''source''),
               cs_notes = field r (S ''notes'')\<rparr> # squadRows low num rows)"

definition loadClubSquads ::
  "(jsstring \<Rightarrow> jsstring) \<Rightarrow> (jsstring \<Rightarrow> real option) \<Rightarrow> jsstring \<Rightarrow> ClubSquadRow list" where
  "loadClubSquads low num content = squadRows low num (readCSV content)"

section \<open>Dates\<close>

text \<open>
  \<open>Number\<close> of a string of decimal digits, \<open>String\<close> of a natural number, and
  \<open>padStart(2, "0")\<close>.
\<close>

definition digitsToNat :: "jsstring \<Rightarrow> nat" where
  "digitsToNat ds = foldl (\<lambda>a c. 10 * a + (c - 48)) 0 ds"

function showNat :: "nat \<Rightarrow> jsstring" where
  "showNat n = (if n < 10 then [48 + n] else showNat (n div 10) @ [48 + n mod 10])"
  by pat_completeness auto
termination
  by (relation "measure (\<lambda>n. n)") auto

declare showNat.simps [simp del]

definition padStart2 :: "jsstring \<Rightarrow> jsstring" where
  "padStart2 s = (if length s = 0 then [48, 48] else if length s = 1 then 48 # s else s)"

text \<open>
  \<open>replace(/\s+/g, " ")\<close>: every maximal run of white space becomes one space. The flag
  says whether the previous code unit was white space.
\<close>

fun collapseFrom :: "bool \<Rightarrow> jsstring \<Rightarrow> jsstring" where
  "collapseFrom inRun [] = []"
| "collapseFrom inRun (c # cs) =
     (if isSpace c then (if inRun then collapseFrom True cs else 32 # collapseFrom True cs)
      else c # collapseFrom False cs)"

definition collapseSpaces :: "jsstring \<Rightarrow> jsstring" where
  "collapseSpaces s = collapseFrom False s"

definition normalizeText :: "jsstring \<Rightarrow> jsstring" where
  "normalizeText v =
     trim (collapseSpaces (map (\<lambda>c. if c = 0xA0 \<or> c = 0x2007 \<or> c = 0x202F then 32 else c) v))"

text \<open>
  The date patterns of the sources have one shape: four digits, a separator, one or
  two digits, a separator, one or two digits, anchored at the start and, for some, at
  the end. \<open>\d{1,2}\<close> is greedy; giving a digit back never helps, because the code
  unit that follows would be that digit, where a separator or the end is required.
  \<open>matchYMD sep toEnd s\<close> is the match of such a pattern with separator class \<open>sep\<close>,
  anchored at the end when \<open>toEnd\<close> holds: the three groups, or \<open>None\<close>.
\<close>

definition takeDigits12 :: "jsstring \<Rightarrow> (jsstring \<times> jsstring) option" where
  "takeDigits12 s =
     (case s of
        [] \<Rightarrow> None
      | c1 # r1 \<Rightarrow>
          if \<not> isDigit c1 then None
          else (case r1 of
                  [] \<Rightarrow> Some ([c1], [])
                | c2 # r2 \<Rightarrow> if isDigit c2 then Some ([c1, c2], r2) else Some ([c1], r1)))"

definition matchYMD ::
  "(nat \<Rightarrow> bool) \<Rightarrow> bool \<Rightarrow> jsstring \<Rightarrow> (jsstring \<times> jsstring \<times> jsstring) option" where
  "matchYMD sep toEnd s =
     (if length s < 4 \<or> \<not> list_all isDigit (take 4 s) then None
      else (case drop 4 s of
              [] \<Rightarrow> None
            | c # r1 \<Rightarrow>
                if \<not> sep c then None
                else (case takeDigits12 r1 of
                        None \<Rightarrow> None
                      | Some (m, r2) \<Rightarrow>
                          (case r2 of
                             [] \<Rightarrow> None
                           | c' # r3 \<Rightarrow>
                               if \<not> sep c' then None
                               else (case takeDigits12 r3 of
                                       None \<Rightarrow> None
                                     | Some (d, r4) \<Rightarrow>
                                         if toEnd \<and> r4 \<noteq> [] then None
                                         else Some (take 4 s, m, d))))))"

text \<open>\<open>/^\d{4}-\d{2}-\d{2}$/.test(s)\<close>\<close>

definition isISODate :: "jsstring \<Rightarrow> bool" where
  "isISODate s \<longleftrightarrow>
     length s = 10 \<and> list_all isDigit (take 4 s) \<and> s ! 4 = 45 \<and>
     isDigit (s ! 5) \<and> isDigit (s ! 6) \<and> s ! 7 = 45 \<and> isDigit (s ! 8) \<and> isDigit (s ! 9)"

definition sepSlashDot :: "nat \<Rightarrow> bool" where
  "sepSlashDot c \<longleftrightarrow> c = 47 \<or> c = 46"

definition sepSlashDashDot :: "nat \<Rightarrow> bool" where
  "sepSlashDashDot c \<longleftrightarrow> c = 47 \<or> c = 45 \<or> c = 46"

definition sepSlashDash :: "nat \<Rightarrow> bool" where
  "sepSlashDash c \<longleftrightarrow> c = 47 \<or> c = 45"

text \<open>\<open>normalizeDateToISO\<close> of src/lib/transfers.ts.\<close>

definition normalizeDateToISO :: "jsstring \<Rightarrow> jsstring" where
  "normalizeDateToISO v =
     (let s = normalizeText v in
      if s = [] then []
      else if isISODate s then s
      else (case matchYMD sepSlashDot True s of
              None \<Rightarrow> []
            | Some (m1, m2, m3) \<Rightarrow>
                (let y = digitsToNat m1; mo = digitsToNat m2; d = digitsToNat m3 in
                 if mo < 1 \<or> mo > 12 then []
                 else if d < 1 \<or> d > 31 then []
                 else showNat y @ [45] @ padStart2 (showNat mo) @ [45] @ padStart2 (showNat d))))"

text \<open>\<open>normDate\<close> of src/lib/repCandidate.ts; the last line returns the trimmed input.\<close>

definition normDate_rep :: "jsstring \<Rightarrow> jsstring" where
  "normDate_rep s =
     (let t = trim s in
      if t = [] then []
      else (case matchYMD sepSlashDashDot False t of
              Some (y, m, d) \<Rightarrow> y @ [45] @ padStart2 m @ [45] @ padStart2 d
            | None \<Rightarrow> t))"

text \<open>
  \<open>normDate\<close> of the name-map enrichment script: the first ten code units when they
  are an ISO date, then the separator pattern, then the empty string.
\<close>

definition normDate :: "jsstring \<Rightarrow> jsstring" where
  "normDate s =
     (let t0 = trim s in
      if t0 = [] then []
      else if isISODate (take 10 t0) then take 10 t0
      else (case matchYMD sepSlashDashDot False t0 of
              Some (y, m, d) \<Rightarrow> y @ [45] @ padStart2 m @ [45] @ padStart2 d
            | None \<Rightarrow> []))"

section \<open>Call-ups: \<open>loadCallups\<close>\<close>

text \<open>
  The second pattern of \<open>toKeyDate\<close>, \<open>/(\d{4}).*?(\d{1,2}).*?(\d{1,2})/\<close>, is not
  anchored and its gaps are lazy; \<open>.\<close> matches every code unit but a line terminator.
  \<open>findDay\<close> is the match of \<open>.*?(\d{1,2})\<close> at the end of the pattern: the gap
  stops at the first digit. \<open>findMonthDay\<close> is the match of
  \<open>.*?(\d{1,2}).*?(\d{1,2})\<close>: at each length of the first gap the month group is
  tried with two digits, then with one, before the gap grows. \<open>searchYMD\<close> tries the
  start positions from left to right.
\<close>

definition isLineTerm :: "nat \<Rightarrow> bool" where
  "isLineTerm c \<longleftrightarrow> c = 10 \<or> c = 13 \<or> c = 0x2028 \<or> c = 0x2029"

fun findDay :: "jsstring \<Rightarrow> jsstring option" where
  "findDay [] = None"
| "findDay (c # cs) =
     (if isDigit c
      then Some (case cs of [] \<Rightarrow> [c] | d # _ \<Rightarrow> if isDigit d then [c, d] else [c])
      else if isLineTerm c then None
      else findDay cs)"

fun findMonthDay :: "jsstring \<Rightarrow> (jsstring \<times> jsstring) option" where
  "findMonthDay [] = None"
| "findMonthDay (c # cs) =
     (let two = (case cs of
                   [] \<Rightarrow> None
                 | d # r \<Rightarrow> if isDigit c \<and> isDigit d
                            then map_option (\<lambda>day. ([c, d], day)) (findDay r) else None);
          one = (if isDigit c then map_option (\<lambda>day. ([c], day)) (findDay cs) else None)
      in case two of
           Some x \<Rightarrow> Some x
         | None \<Rightarrow>
             (case one of
                Some x \<Rightarrow> Some x
              | None \<Rightarrow> if isLineTerm c then None else findMonthDay cs))"

fun searchYMD :: "jsstring \<Rightarrow> (jsstring \<times> jsstring \<times> jsstring) option" where
  "searchYMD [] = None"
| "searchYMD (c # cs) =
     (if length (c # cs) \<ge> 4 \<and> list_all isDigit (take 4 (c # cs))
      then (case findMonthDay (drop 4 (c # cs)) of
              Some (m, d) \<Rightarrow> Some (take 4 (c # cs), m, d)
            | None \<Rightarrow> searchYMD cs)
      else searchYMD cs)"

definition keyDateOf :: "jsstring \<times> jsstring \<times> jsstring \<Rightarrow> jsstring" where
  "keyDateOf g =
     (case g of (y, m, d) \<Rightarrow>
        y @ padStart2 (showNat (digitsToNat m)) @ padStart2 (showNat (digitsToNat d)))"

definition toKeyDate :: "jsstring \<Rightarrow> jsstring" where
  "toKeyDate v =
     (let s = trim v in
      if s = [] then []
      else (case matchYMD sepSlashDash False s of
              Some g \<Rightarrow> keyDateOf g
            | None \<Rightarrow> (case searchYMD s of Some g \<Rightarrow> keyDateOf g | None \<Rightarrow> [])))"

text \<open>
  The rows are the objects that the CSV library returns for the call-ups file (one
  string per header name): maps from field names to strings, an absent field reading
  as \<open>undefined\<close>, which \<open>?? ""\<close> turns into the empty string and which is falsy.
\<close>

type_synonym CallupRow = "jsstring \<rightharpoonup> jsstring"

definition truthy :: "jsstring option \<Rightarrow> bool" where
  "truthy v \<longleftrightarrow> (case v of None \<Rightarrow> False | Some s \<Rightarrow> s \<noteq> [])"

definition groupKey :: "CallupRow \<Rightarrow> jsstring" where
  "groupKey r =
     trim (field r (S ''competition'')) @ S ''|||'' @ trim (field r (S ''edition'')) @ S ''|||'' @
     trim (field r (S ''country''))"

definition snapshotKey :: "CallupRow \<Rightarrow> jsstring" where
  "snapshotKey r = toKeyDate (field r (S ''snapshot_date''))"

definition groupMaxStep :: "(jsstring \<rightharpoonup> jsstring) \<Rightarrow> CallupRow \<Rightarrow> (jsstring \<rightharpoonup> jsstring)" where
  "groupMaxStep groupMax r =
     (if trim (field r (S ''country'')) = [] then groupMax
      else let gk = groupKey r;
               d = snapshotKey r;
               cur = (case groupMax gk of None \<Rightarrow> [] | Some c \<Rightarrow> c)
           in if d \<noteq> [] \<and> d > cur then groupMax(gk \<mapsto> d) else groupMax)"

definition loadCallups :: "CallupRow list \<Rightarrow> CallupRow list" where
  "loadCallups parsed =
     (let rows = filter (\<lambda>r. truthy (r (S ''country'')) \<and> truthy (r (S ''name_en''))) parsed;
          groupMax = foldl groupMaxStep Map.empty rows
      in filter (\<lambda>r. let mx = (case groupMax (groupKey r) of None \<Rightarrow> [] | Some c \<Rightarrow> c);
                         d = snapshotKey r
                     in if mx \<noteq> [] then d = mx else True) rows)"

text \<open>A call-up row with the given competition, edition, country, player and snapshot date.\<close>

definition mkCallup :: "jsstring \<Rightarrow> jsstring \<Rightarrow> jsstring \<Rightarrow> jsstring \<Rightarrow> jsstring \<Rightarrow> CallupRow" where
  "mkCallup c ed country name snap =
     [S ''competition'' \<mapsto> c, S ''edition'' \<mapsto> ed, S ''country'' \<mapsto> country,
      S ''name_en'' \<mapsto> name, S ''snapshot_date'' \<mapsto> snap]"



text \<open>
  The grouping in the words of the specification: the group of a row is its
  (competition, edition, country), each trimmed; \<open>groupDates\<close> are the snapshot strings
  of the dated rows of the group of a row, and a row holds the latest snapshot when no
  dated row of its group has a larger snapshot string.
\<close>

definition groupOf :: "CallupRow \<Rightarrow> jsstring \<times> jsstring \<times> jsstring" where
  "groupOf r =
     (trim (field r (S ''competition'')), trim (field r (S ''edition'')),
      trim (field r (S ''country'')))"




section \<open>Club master resolver: \<open>resolveClubFromMaster\<close>\<close>

record ClubMasterRow =
  cm_league_key :: jsstring
  cm_club_key :: jsstring
  cm_league_display :: jsstring
  cm_club_display_ja :: jsstring
  cm_club_display_en :: jsstring
  cm_aliases :: jsstring
  cm_club_alias_en :: jsstring
  cm_club_alias_ja :: jsstring

record ResolvedClub =
  rc_league_key :: jsstring
  rc_club_key :: jsstring
  rc_club_display_ja :: jsstring
  rc_league_display :: jsstring

text \<open>
  \<open>keyNormalize\<close>: no-break and ideographic spaces become spaces, the zero-width code
  units U+200B to U+200D and U+FEFF are removed, then \<open>normalize("NFKC")\<close>, \<open>trim\<close> and
  \<open>toLowerCase\<close>. The two Unicode built-ins are the arguments \<open>nfkc\<close> and \<open>low\<close>.
  The loader stores an empty alias column as \<open>undefined\<close>; both are falsy, and the
  empty string stands for both.
\<close>

definition keyNormalize :: "(jsstring \<Rightarrow> jsstring) \<Rightarrow> (jsstring \<Rightarrow> jsstring) \<Rightarrow> jsstring \<Rightarrow> jsstring" where
  "keyNormalize nfkc low v =
     low (trim (nfkc (filter (\<lambda>c. \<not> (0x200B \<le> c \<and> c \<le> 0x200D) \<and> c \<noteq> 0xFEFF)
                       (map (\<lambda>c. if c = 0xA0 \<or> c = 0x3000 then 32 else c) v))))"

fun splitOn :: "(nat \<Rightarrow> bool) \<Rightarrow> jsstring \<Rightarrow> jsstring \<Rightarrow> jsstring list" where
  "splitOn sep [] cur = [cur]"
| "splitOn sep (c # cs) cur = (if sep c then cur # splitOn sep cs [] else splitOn sep cs (cur @ [c]))"

text \<open>The separators of \<open>aliases\<close> are the bar, the slash, the semicolon and the comma.\<close>

definition aliasSep :: "nat \<Rightarrow> bool" where
  "aliasSep c \<longleftrightarrow> c = 124 \<or> c = 47 \<or> c = 59 \<or> c = 44"

text \<open>
  A text made of pieces with one separator between neighbours: \<open>seps\<close> holds the
  separators, one fewer than the pieces. A text splits into the pieces when it is made
  of them in this way, the pieces holding no separator.
\<close>

fun joinWith :: "jsstring list \<Rightarrow> nat list \<Rightarrow> jsstring" where
  "joinWith [] seps = []"
| "joinWith [x] seps = x"
| "joinWith (x # y # xs) [] = x"
| "joinWith (x # y # xs) (c # cs) = x @ c # joinWith (y # xs) cs"

definition splitsInto :: "(nat \<Rightarrow> bool) \<Rightarrow> jsstring \<Rightarrow> jsstring list \<Rightarrow> bool" where
  "splitsInto sep s pieces \<longleftrightarrow>
     (\<exists>seps. length seps + 1 = length pieces \<and> (\<forall>c \<in> set seps. sep c) \<and>
             (\<forall>x \<in> set pieces. \<forall>c \<in> set x. \<not> sep c) \<and> s = joinWith pieces seps)"

definition expandAliases :: "ClubMasterRow \<Rightarrow> jsstring list" where
  "expandAliases m =
     filter (\<lambda>x. x \<noteq> [])
       (map trim
          ((if cm_aliases m \<noteq> [] then splitOn aliasSep (cm_aliases m) [] else []) @
           (if cm_club_alias_en m \<noteq> [] then splitOn (\<lambda>c. c = 124) (cm_club_alias_en m) [] else []) @
           (if cm_club_alias_ja m \<noteq> [] then splitOn (\<lambda>c. c = 124) (cm_club_alias_ja m) [] else [])))"

definition findClub ::
  "(jsstring \<Rightarrow> jsstring) \<Rightarrow> (jsstring \<Rightarrow> jsstring) \<Rightarrow> jsstring \<Rightarrow> ClubMasterRow \<Rightarrow> bool" where
  "findClub nfkc low c m =
     (let cands = map (keyNormalize nfkc low)
                    ([cm_club_display_en m, cm_club_display_ja m] @ expandAliases m)
      in list_ex (\<lambda>x. x \<noteq> [] \<and> (x = c \<or> js_includes x c \<or> js_includes c x)) cands)"

definition resolveClubFromMaster ::
  "(jsstring \<Rightarrow> jsstring) \<Rightarrow> (jsstring \<Rightarrow> jsstring) \<Rightarrow> ClubMasterRow list \<Rightarrow> jsstring \<Rightarrow> jsstring
   \<Rightarrow> ResolvedClub option" where
  "resolveClubFromMaster nfkc low masters leagueDisp clubDisp =
     (let l = keyNormalize nfkc low leagueDisp;
          c = keyNormalize nfkc low clubDisp;
          leagueMatches = filter (\<lambda>m. keyNormalize nfkc low (cm_league_display m) = l) masters
      in case find (findClub nfkc low c) (if length leagueMatches \<noteq> 0 then leagueMatches else masters) of
           None \<Rightarrow> None
         | Some hit \<Rightarrow>
             Some \<lparr>rc_league_key = cm_league_key hit, rc_club_key = cm_club_key hit,
                   rc_club_display_ja = cm_club_display_ja hit,
                   rc_league_display = cm_league_display hit\<rparr>)"

definition resolvedOf :: "ClubMasterRow \<Rightarrow> ResolvedClub" where
  "resolvedOf hit =
     \<lparr>rc_league_key = cm_league_key hit, rc_club_key = cm_club_key hit,
      rc_club_display_ja = cm_club_display_ja hit, rc_league_display = cm_league_display hit\<rparr>"

text \<open>A master table of two clubs of one league, the second with two aliases.\<close>

definition exampleMasters :: "ClubMasterRow list" where
  "exampleMasters =
     [\<lparr>cm_league_key = S ''epl'', cm_club_key = S ''chelsea'', cm_league_display = S ''Premier League'',
       cm_club_display_ja = [0x30C1, 0x30A7, 0x30EB, 0x30B7, 0x30FC], cm_club_display_en = S ''Chelsea'',
       cm_aliases = [], cm_club_alias_en = [], cm_club_alias_ja = []\<rparr>,
      \<lparr>cm_league_key = S ''epl'', cm_club_key = S ''arsenal'', cm_league_display = S ''Premier League'',
       cm_club_display_ja = [0x30A2, 0x30FC, 0x30BB, 0x30CA, 0x30EB], cm_club_display_en = S ''Arsenal'',
       cm_aliases = S ''Gunners; Arsenal FC'', cm_club_alias_en = [], cm_club_alias_ja = []\<rparr>]"

section \<open>Name map (name-map enrichment script)\<close>

record NameMapEntry =
  nm_key :: jsstring
  nm_name_en :: jsstring
  nm_birth_date :: jsstring
  nm_name_ja :: jsstring
  nm_source :: jsstring
  nm_updated_at :: jsstring

record NameMapStore =
  nms_index :: "jsstring \<rightharpoonup> NameMapEntry"
  nms_canon :: "jsstring \<rightharpoonup> NameMapEntry"

text \<open>
  \<open>normName\<close> trims, removes full stops, turns the apostrophe variants U+2019, U+0060
  and U+00B4 into the apostrophe and the dashes U+2010 to U+2015 into the hyphen, and
  collapses white space. \<open>loosenName\<close> trims, unifies the apostrophe U+2019, turns the
  hyphen and the dashes U+2010 to U+2014 into spaces, and collapses white space.
  \<open>foldDiacritics\<close> removes the combining marks U+0300 to U+036F after
  \<open>normalize("NFKD")\<close>, the argument \<open>nfkd\<close>.
\<close>

definition normName :: "jsstring \<Rightarrow> jsstring" where
  "normName s =
     collapseSpaces
       (map (\<lambda>c. if 0x2010 \<le> c \<and> c \<le> 0x2015 then 45 else c)
          (map (\<lambda>c. if c = 0x2019 \<or> c = 39 \<or> c = 0x60 \<or> c = 0xB4 then 39 else c)
             (filter (\<lambda>c. c \<noteq> 46) (trim s))))"

definition foldDiacritics :: "(jsstring \<Rightarrow> jsstring) \<Rightarrow> jsstring \<Rightarrow> jsstring" where
  "foldDiacritics nfkd s = filter (\<lambda>c. \<not> (0x300 \<le> c \<and> c \<le> 0x36F)) (nfkd s)"

definition loosenName :: "jsstring \<Rightarrow> jsstring" where
  "loosenName s =
     collapseSpaces
       (map (\<lambda>c. if c = 45 \<or> (0x2010 \<le> c \<and> c \<le> 0x2014) then 32 else c)
          (map (\<lambda>c. if c = 0x2019 \<or> c = 39 then 39 else c) (trim s)))"

definition keyOf :: "jsstring \<Rightarrow> jsstring \<Rightarrow> jsstring" where
  "keyOf name_en birth_date = trim name_en @ [124] @ trim birth_date"

text \<open>A \<open>Set\<close> keeps its elements in insertion order, each once.\<close>

definition setAdd :: "'a list \<Rightarrow> 'a \<Rightarrow> 'a list" where
  "setAdd xs x = (if x \<in> set xs then xs else xs @ [x])"

definition candidateKeys :: "(jsstring \<Rightarrow> jsstring) \<Rightarrow> jsstring \<Rightarrow> jsstring \<Rightarrow> jsstring list" where
  "candidateKeys nfkd name_en_raw birth_norm =
     (let raw = trim name_en_raw;
          v1 = raw;
          v2 = normName raw;
          v3 = foldDiacritics nfkd v1;
          v4 = foldDiacritics nfkd v2;
          uniq = foldl setAdd []
                   [keyOf v1 birth_norm, keyOf v2 birth_norm, keyOf v3 birth_norm, keyOf v4 birth_norm];
          loose = loosenName raw
      in if loose \<noteq> [] \<and> loose \<noteq> raw
         then setAdd (setAdd uniq (keyOf loose birth_norm)) (keyOf (foldDiacritics nfkd loose) birth_norm)
         else uniq)"

text \<open>
  \<open>upsertNameMap\<close> mutates the store; the model returns the new store. \<open>today\<close> is the
  date string that the source takes from the clock.
\<close>

definition upsertNameMap ::
  "(jsstring \<Rightarrow> jsstring) \<Rightarrow> jsstring \<Rightarrow> NameMapStore \<Rightarrow> jsstring \<Rightarrow> jsstring \<Rightarrow> jsstring \<Rightarrow> NameMapStore" where
  "upsertNameMap nfkd today store name_en_raw birth name_ja =
     (let name_en = normName (trim name_en_raw);
          k = keyOf name_en birth;
          entry = \<lparr>nm_key = k, nm_name_en = name_en, nm_birth_date = birth, nm_name_ja = name_ja,
                   nm_source = S ''wikidata'', nm_updated_at = today\<rparr>
      in \<lparr>nms_index = foldl (\<lambda>idx k'. idx(k' \<mapsto> entry)) (nms_index store)
                         (candidateKeys nfkd name_en_raw birth),
          nms_canon = (nms_canon store)(k \<mapsto> entry)\<rparr>)"

text \<open>
  The dictionary pass of \<open>main\<close>: the candidate keys are tried in order, and the first
  entry with a non-empty \<open>name_ja\<close> is the hit; \<open>hit\<close> stays empty when none has one.
\<close>

fun firstHit :: "(jsstring \<rightharpoonup> NameMapEntry) \<Rightarrow> jsstring list \<Rightarrow> jsstring" where
  "firstHit idx [] = []"
| "firstHit idx (k # ks) =
     (let hit = (case idx k of None \<Rightarrow> [] | Some e \<Rightarrow> nm_name_ja e)
      in if hit \<noteq> [] then hit else firstHit idx ks)"

definition lookupNameJa :: "(jsstring \<Rightarrow> jsstring) \<Rightarrow> NameMapStore \<Rightarrow> jsstring \<Rightarrow> jsstring \<Rightarrow> jsstring" where
  "lookupNameJa nfkd store name_en birth_date =
     (let name_en_raw = trim name_en;
          birth = normDate birth_date
      in firstHit (nms_index store) (candidateKeys nfkd name_en_raw birth))"

definition emptyStore :: NameMapStore where
  "emptyStore = \<lparr>nms_index = Map.empty, nms_canon = Map.empty\<rparr>"

text \<open>The verified name of the example, four katakana code units.\<close>

definition baumannJa :: jsstring where
  "baumannJa = [0x30D0, 0x30A6, 0x30DE, 0x30F3]"

section \<open>Properties of \<open>addRank\<close>\<close>

lemma addRank_loop_fst: "map fst (addRank_loop sk ls rank i rows) = rows"
  by (induction rows arbitrary: ls rank i) (simp_all add: Let_def)

lemma addRank_loop_head:
  "snd (addRank_loop sk ls rank i (r # rows) ! 0) =
     (if ls \<noteq> Some (sk r) then i + 1 else rank)"
  by (auto simp: Let_def)

lemma addRank_loop_step:
  "k < length rows \<Longrightarrow>
   snd (addRank_loop sk ls rank i (r # rows) ! Suc k) =
     (if sk ((r # rows) ! Suc k) \<noteq> sk ((r # rows) ! k) then i + Suc k + 1
      else snd (addRank_loop sk ls rank i (r # rows) ! k))"
proof (induction rows arbitrary: ls rank i r k)
  case Nil
  then show ?case by simp
next
  case (Cons x xs)
  let ?tl = "addRank_loop sk (Some (sk r)) (if ls \<noteq> Some (sk r) then i + 1 else rank) (i + 1) (x # xs)"
  have unfold: "addRank_loop sk ls rank i (r # x # xs) =
      (r, if ls \<noteq> Some (sk r) then i + 1 else rank) # ?tl"
    by (auto simp: Let_def)
  show ?case
  proof (cases k)
    case 0
    have "snd (?tl ! 0) = (if sk x \<noteq> sk r then i + 2 else (if ls \<noteq> Some (sk r) then i + 1 else rank))"
      using addRank_loop_head [of sk "Some (sk r)" _ "i + 1" x xs] by auto
    with 0 unfold show ?thesis by simp
  next
    case (Suc k')
    with Cons.prems have k': "k' < length xs" by simp
    have "snd (?tl ! Suc k') =
        (if sk ((x # xs) ! Suc k') \<noteq> sk ((x # xs) ! k') then (i + 1) + Suc k' + 1
         else snd (?tl ! k'))"
      by (rule Cons.IH [OF k'])
    with Suc unfold show ?thesis by simp
  qed
qed

lemma addRank_rank_rule:
  assumes "k < length rows"
  shows "snd (addRank sk rows ! k) =
     (if k = 0 \<or> sk (rows ! k) \<noteq> sk (rows ! (k - 1)) then k + 1
      else snd (addRank sk rows ! (k - 1)))"
proof (cases rows)
  case Nil
  with assms show ?thesis by simp
next
  case (Cons r rs)
  show ?thesis
  proof (cases k)
    case 0
    then show ?thesis
      unfolding addRank_def Cons using addRank_loop_head [of sk None 0 0 r rs] by simp
  next
    case (Suc k')
    with assms Cons have "k' < length rs" by simp
    from addRank_loop_step [OF this, of sk None 0 0 r] Suc show ?thesis
      unfolding addRank_def Cons by simp
  qed
qed

lemma sorted_desc_between:
  fixes sk :: "'a \<Rightarrow> int"
  assumes "sorted_wrt (\<lambda>a b. b \<le> a) (map sk rows)" "j \<le> m" "m \<le> k" "k < length rows"
    "sk (rows ! j) = sk (rows ! k)"
  shows "sk (rows ! m) = sk (rows ! j)"
proof -
  have le: "sk (rows ! b) \<le> sk (rows ! a)" if "a \<le> b" "b < length rows" for a b
  proof (cases "a = b")
    case True
    then show ?thesis by simp
  next
    case False
    with that have "a < b" by simp
    with assms(1) that have "map sk rows ! b \<le> map sk rows ! a"
      by (simp add: sorted_wrt_iff_nth_less)
    with \<open>a < b\<close> that show ?thesis by simp
  qed
  have "m < length rows" using assms(3,4) by simp
  with assms(2) have "sk (rows ! m) \<le> sk (rows ! j)" by (rule le)
  moreover from assms(3,4) have "sk (rows ! k) \<le> sk (rows ! m)" by (rule le)
  ultimately show ?thesis using assms(5) by simp
qed

lemma addRank_first_tied:
  fixes sk :: "'a \<Rightarrow> int"
  assumes sorted: "sorted_wrt (\<lambda>a b. b \<le> a) (map sk rows)"
    and first: "\<forall>m<j. sk (rows ! m) \<noteq> sk (rows ! j)"
  shows "j \<le> k \<Longrightarrow> k < length rows \<Longrightarrow> sk (rows ! j) = sk (rows ! k) \<Longrightarrow>
         snd (addRank sk rows ! k) = j + 1"
proof (induction k)
  case 0
  then show ?case using addRank_rank_rule [of 0 rows sk] by simp
next
  case (Suc k)
  show ?case
  proof (cases "j = Suc k")
    case True
    have "sk (rows ! k) \<noteq> sk (rows ! Suc k)"
      using first True by simp
    with True Suc.prems show ?thesis
      using addRank_rank_rule [of "Suc k" rows sk] by simp
  next
    case False
    with Suc.prems have jk: "j \<le> k" and kl: "k < length rows" by simp_all
    have eqk: "sk (rows ! k) = sk (rows ! j)"
      using sorted_desc_between [OF sorted jk le_SucI [OF order_refl] Suc.prems(2) Suc.prems(3)] by simp
    then have ih: "snd (addRank sk rows ! k) = j + 1"
      using Suc.IH jk kl by simp
    have "sk (rows ! Suc k) = sk (rows ! k)" using eqk Suc.prems(3) by simp
    then show ?thesis
      using addRank_rank_rule [of "Suc k" rows sk] Suc.prems(2) ih by simp
  qed
qed

text \<open>
  C6. On rows sorted by descending score, \<open>addRank\<close> keeps the rows in order and gives
  each row the rank "1-based position" when its score differs from the previous row's
  score (or it is the first row), and the rank of the previous row otherwise; a row tied
  with earlier rows carries the rank (the position) of the first row with that score.
  Scores 10, 8, 8, 5 get the ranks 1, 2, 2, 4.
\<close>

theorem addRank_competition_ranking:
  fixes sk :: "'a \<Rightarrow> int"
  assumes "sorted_wrt (\<lambda>a b. b \<le> a) (map sk rows)"
  shows "map fst (addRank sk rows) = rows \<and>
    (\<forall>k<length rows. snd (addRank sk rows ! k) =
           (if k = 0 \<or> sk (rows ! k) \<noteq> sk (rows ! (k - 1)) then k + 1
            else snd (addRank sk rows ! (k - 1)))) \<and>
    (\<forall>j k. j \<le> k \<and> k < length rows \<and> sk (rows ! j) = sk (rows ! k) \<and>
           (\<forall>m<j. sk (rows ! m) \<noteq> sk (rows ! k)) \<longrightarrow> snd (addRank sk rows ! k) = j + 1) \<and>
    map snd (addRank (\<lambda>x. x) [10, 8, 8, 5]) = [1, 2, 2, 4]"
proof -
  have 1: "map fst (addRank sk rows) = rows"
    by (simp add: addRank_def addRank_loop_fst)
  have 2: "\<forall>k<length rows. snd (addRank sk rows ! k) =
           (if k = 0 \<or> sk (rows ! k) \<noteq> sk (rows ! (k - 1)) then k + 1
            else snd (addRank sk rows ! (k - 1)))"
    using addRank_rank_rule by blast
  have 3: "\<forall>j k. j \<le> k \<and> k < length rows \<and> sk (rows ! j) = sk (rows ! k) \<and>
           (\<forall>m<j. sk (rows ! m) \<noteq> sk (rows ! k)) \<longrightarrow> snd (addRank sk rows ! k) = j + 1"
    using addRank_first_tied [OF assms] by metis
  have 4: "map snd (addRank (\<lambda>x. x) [10, 8, 8, 5]) = [1, 2, 2, 4]"
    by (simp add: addRank_def)
  from 1 2 3 4 show ?thesis by blast
qed

theorem addRank_competition_ranking_witness:
  "sorted_wrt (\<lambda>a b. b \<le> a) (map (\<lambda>x. x) [10, 8, 8, 5 :: int]) \<and>
   map fst (addRank (\<lambda>x. x) [10, 8, 8, 5 :: int]) = [10, 8, 8, 5] \<and>
   map snd (addRank (\<lambda>x. x) [10, 8, 8, 5 :: int]) = [1, 2, 2, 4]"
proof -
  have h: "sorted_wrt (\<lambda>a b. b \<le> a) (map (\<lambda>x. x) [10, 8, 8, 5 :: int])" by simp
  show ?thesis using h addRank_competition_ranking [OF h] by simp
qed

section \<open>Properties of \<open>shouldSkipFail\<close>\<close>

text \<open>
  C7. \<open>shouldSkipFail\<close> answers true exactly when the key has a cached failure whose
  reason is not \<open>api_error\<close>, whose \<open>checked_at\<close> parses to a finite time, and for which
  \<open>nowMs - t < skipMs\<close>. So an \<open>api_error\<close> entry never suppresses a retry, whatever the
  times are, and an entry with reason \<open>notfound\<close>, \<open>ambiguous\<close> or \<open>no_ja\<close> and a
  parseable \<open>checked_at\<close> suppresses it exactly while the elapsed time is below the
  cooldown.
\<close>

theorem shouldSkipFail_policy:
  "(shouldSkipFail failMap getTime nowMs skipMs k \<longleftrightarrow>
     (\<exists>f t. failMap k = Some f \<and> fe_reason f \<noteq> api_error \<and>
            getTime (fe_checked_at f) = Some t \<and> real_of_int (nowMs - t) < skipMs)) \<and>
   shouldSkipFail (failMap(k \<mapsto> f\<lparr>fe_reason := api_error\<rparr>)) getTime nowMs skipMs k = False \<and>
   (r \<in> {notfound, ambiguous, no_ja} \<and> getTime c = Some t \<longrightarrow>
      (shouldSkipFail (failMap(k \<mapsto> \<lparr>fe_key = k, fe_reason = r, fe_checked_at = c\<rparr>))
         getTime nowMs skipMs k \<longleftrightarrow> real_of_int (nowMs - t) < skipMs))"
  by (auto simp: shouldSkipFail_def split: option.splits)

theorem shouldSkipFail_policy_witness:
  "no_ja \<in> {notfound, ambiguous, no_ja} \<and>
   (\<lambda>s. if s = S ''t0'' then Some 1000 else None) (S ''t0'') = Some (1000::int) \<and>
   shouldSkipFail (Map.empty(S ''k'' \<mapsto> \<lparr>fe_key = S ''k'', fe_reason = no_ja, fe_checked_at = S ''t0''\<rparr>))
     (\<lambda>s. if s = S ''t0'' then Some 1000 else None) 5000 (skipMs_of 30) (S ''k'') \<and>
   \<not> shouldSkipFail (Map.empty(S ''k'' \<mapsto> \<lparr>fe_key = S ''k'', fe_reason = api_error, fe_checked_at = S ''t0''\<rparr>))
     (\<lambda>s. if s = S ''t0'' then Some 1000 else None) 5000 (skipMs_of 30) (S ''k'')"
proof -
  let ?g = "\<lambda>s. if s = S ''t0'' then Some 1000 else (None :: int option)"
  let ?f = "\<lparr>fe_key = S ''k'', fe_reason = no_ja, fe_checked_at = S ''t0''\<rparr>"
  show ?thesis
    using shouldSkipFail_policy [of Map.empty ?g 5000 "skipMs_of 30" "S ''k''" ?f no_ja "S ''t0''" 1000]
    by (simp add: skipMs_of_def)
qed

section \<open>Properties of the goal ranking\<close>

lemma foldl_skip_filter:
  assumes "\<And>acc e. P e \<Longrightarrow> step acc e = acc"
  shows "foldl step acc (filter (\<lambda>e. \<not> P e) xs) = foldl step acc xs"
  by (induction xs arbitrary: acc) (simp_all add: assms)

lemma map_fst_mapUpd: "map fst (mapUpd m k f) = map fst m"
  by (induction m) (auto simp: mapUpd_def)

lemma map_fst_mapAdd: "map fst (mapAdd m k v) = (if k \<in> fst ` set m then map fst m else map fst m @ [k])"
  by (auto simp: mapAdd_def mapHas_def map_of_eq_None_iff)

lemma set_mapUpd: "set (mapUpd m k f) = (\<lambda>(k', v). if k' = k then (k', f v) else (k', v)) ` set m"
  by (simp add: mapUpd_def)

lemma set_mapAdd: "set (mapAdd m k v) = (if k \<in> fst ` set m then set m else insert (k, v) (set m))"
  by (auto simp: mapAdd_def mapHas_def map_of_eq_None_iff)

lemma goalStep_eq:
  "goalStep up c ed m e =
     (if countedGoal up c ed e
      then mapUpd (mapAdd m (eventKey e) \<lparr>gr_player = me_player e, gr_team = me_team e, gr_goals = 0\<rparr>)
             (eventKey e) (\<lambda>r. r\<lparr>gr_goals := gr_goals r + 1\<rparr>)
      else m)"
  by (auto simp: goalStep_def countedGoal_def eventKey_def Let_def)

lemma goal_loop_invariant:
  "distinct (map fst (foldl (goalStep up c ed) [] xs)) \<and>
   fst ` set (foldl (goalStep up c ed) [] xs) = eventKey ` {e \<in> set xs. countedGoal up c ed e} \<and>
   (\<forall>(k, r) \<in> set (foldl (goalStep up c ed) [] xs).
       rowKey r = k \<and>
       gr_goals r = int (length (filter (\<lambda>e. countedGoal up c ed e \<and> eventKey e = k) xs)) \<and>
       (\<exists>e \<in> set xs. countedGoal up c ed e \<and> me_player e = gr_player r \<and> me_team e = gr_team r))"
proof (induction xs rule: rev_induct)
  case Nil
  then show ?case by simp
next
  case (snoc e xs)
  let ?m = "foldl (goalStep up c ed) [] xs"
  from snoc have d: "distinct (map fst ?m)"
    and keys: "fst ` set ?m = eventKey ` {e \<in> set xs. countedGoal up c ed e}"
    and rows: "\<And>k r. (k, r) \<in> set ?m \<Longrightarrow> rowKey r = k \<and>
       gr_goals r = int (length (filter (\<lambda>e. countedGoal up c ed e \<and> eventKey e = k) xs)) \<and>
       (\<exists>e \<in> set xs. countedGoal up c ed e \<and> me_player e = gr_player r \<and> me_team e = gr_team r)"
    by auto
  show ?case
  proof (cases "countedGoal up c ed e")
    case False
    then have "foldl (goalStep up c ed) [] (xs @ [e]) = ?m" by (simp add: goalStep_eq)
    with False d keys rows show ?thesis by (auto 4 3)
  next
    case True
    let ?k = "eventKey e"
    let ?r0 = "\<lparr>gr_player = me_player e, gr_team = me_team e, gr_goals = 0\<rparr>"
    let ?inc = "\<lambda>r. r\<lparr>gr_goals := gr_goals r + 1\<rparr>"
    let ?m' = "mapUpd (mapAdd ?m ?k ?r0) ?k ?inc"
    have new: "foldl (goalStep up c ed) [] (xs @ [e]) = ?m'" using True by (simp add: goalStep_eq)
    have d': "distinct (map fst ?m')" using d by (auto simp: map_fst_mapUpd map_fst_mapAdd)
    have keys': "fst ` set ?m' = eventKey ` {x \<in> set (xs @ [e]). countedGoal up c ed x}"
    proof -
      have "fst ` set ?m' = set (map fst ?m')" by simp
      also have "\<dots> = insert ?k (fst ` set ?m)" by (auto simp: map_fst_mapUpd map_fst_mapAdd)
      also have "\<dots> = eventKey ` {x \<in> set (xs @ [e]). countedGoal up c ed x}"
        using True keys by auto
      finally show ?thesis .
    qed
    have rows': "rowKey r = k \<and>
       gr_goals r = int (length (filter (\<lambda>x. countedGoal up c ed x \<and> eventKey x = k) (xs @ [e]))) \<and>
       (\<exists>x \<in> set (xs @ [e]). countedGoal up c ed x \<and> me_player x = gr_player r \<and> me_team x = gr_team r)"
      if "(k, r) \<in> set ?m'" for k r
    proof -
      from that obtain r1 where r1: "(k, r1) \<in> set (mapAdd ?m ?k ?r0)"
        and r: "r = (if k = ?k then ?inc r1 else r1)"
        by (auto simp: set_mapUpd split: if_splits)
      show ?thesis
      proof (cases "k = ?k")
        case False
        with r1 r have "(k, r) \<in> set ?m" by (auto simp: set_mapAdd split: if_splits)
        from rows [OF this] False show ?thesis by auto
      next
        case k: True
        show ?thesis
        proof (cases "?k \<in> fst ` set ?m")
          case True
          with r1 have "(k, r1) \<in> set ?m" by (simp add: set_mapAdd)
          from rows [OF this] k r \<open>countedGoal up c ed e\<close> show ?thesis
            by (auto simp: rowKey_def)
        next
          case False
          with r1 k d have r1': "r1 = ?r0" by (auto simp: set_mapAdd image_iff)
          from False keys have "?k \<notin> eventKey ` {e \<in> set xs. countedGoal up c ed e}" by simp
          moreover have "?k \<in> eventKey ` {e \<in> set xs. countedGoal up c ed e}"
            if "x \<in> set xs" "countedGoal up c ed x" "eventKey x = ?k" for x
            using that by (intro image_eqI [of _ _ x]) simp_all
          ultimately have "\<forall>x \<in> set xs. \<not> (countedGoal up c ed x \<and> eventKey x = ?k)" by blast
          then have "filter (\<lambda>x. countedGoal up c ed x \<and> eventKey x = ?k) xs = []"
            by (simp add: filter_empty_conv)
          with r1' k r \<open>countedGoal up c ed e\<close> show ?thesis
            by (auto simp: rowKey_def eventKey_def)
        qed
      qed
    qed
    from d' keys' rows' show ?thesis unfolding new by blast
  qed
qed


lemma insertBy_insort:
  fixes f :: "'a \<Rightarrow> int"
  shows "insertBy (\<lambda>a b. f b - f a) x ys = insort_key (\<lambda>r. - f r) x ys"
  by (induction ys) auto

lemma sortBy_sort_key:
  fixes f :: "'a \<Rightarrow> int"
  shows "sortBy (\<lambda>a b. f b - f a) xs = sort_key (\<lambda>r. - f r) xs"
  unfolding sortBy_def sort_key_def by (induction xs) (simp_all add: insertBy_insort)

lemma sortBy_desc_sorted:
  fixes f :: "'a \<Rightarrow> int"
  shows "sorted_wrt (\<lambda>a b. f b \<le> f a) (sortBy (\<lambda>a b. f b - f a) xs)"
proof -
  have "sorted (map (\<lambda>r. - f r) (sort_key (\<lambda>r. - f r) xs))" by (rule sorted_sort_key)
  then show ?thesis by (simp add: sortBy_sort_key sorted_map)
qed

lemma sortBy_desc_mset:
  fixes f :: "'a \<Rightarrow> int"
  shows "mset (sortBy (\<lambda>a b. f b - f a) xs) = mset xs"
  by (simp add: sortBy_sort_key)

lemma sortBy_desc_set:
  fixes f :: "'a \<Rightarrow> int"
  shows "set (sortBy (\<lambda>a b. f b - f a) xs) = set xs"
  by (simp add: sortBy_sort_key)

lemma getGoalRanking_set:
  "set (getGoalRanking up events c ed) = snd ` set (foldl (goalStep up c ed) [] events)"
  unfolding getGoalRanking_def by (simp add: sortBy_desc_set)

lemma getGoalRanking_keys_distinct:
  "distinct (map rowKey (getGoalRanking up events c ed))"
proof -
  let ?m = "foldl (goalStep up c ed) [] events"
  have "\<forall>x \<in> set ?m. rowKey (snd x) = fst x"
    using goal_loop_invariant [of up c ed events] by auto
  then have "map rowKey (map snd ?m) = map fst ?m"
    by simp
  moreover have "distinct (map fst ?m)"
    using goal_loop_invariant [of up c ed events] by (rule conjunct1)
  ultimately have d: "distinct (map rowKey (map snd ?m))"
    by (simp only:)
  have "mset (map rowKey (getGoalRanking up events c ed)) = mset (map rowKey (map snd ?m))"
    unfolding getGoalRanking_def by (simp only: mset_map sortBy_desc_mset)
  from mset_eq_imp_distinct_iff [OF this] d show ?thesis by simp
qed

lemma goal_loop_rows:
  assumes "(k, r) \<in> set (foldl (goalStep up c ed) [] xs)"
  shows "rowKey r = k"
    and "gr_goals r = int (length (filter (\<lambda>e. countedGoal up c ed e \<and> eventKey e = k) xs))"
    and "\<exists>e \<in> set xs. countedGoal up c ed e \<and> me_player e = gr_player r \<and> me_team e = gr_team r"
proof -
  have "\<forall>(k, r) \<in> set (foldl (goalStep up c ed) [] xs).
       rowKey r = k \<and>
       gr_goals r = int (length (filter (\<lambda>e. countedGoal up c ed e \<and> eventKey e = k) xs)) \<and>
       (\<exists>e \<in> set xs. countedGoal up c ed e \<and> me_player e = gr_player r \<and> me_team e = gr_team r)"
    using goal_loop_invariant [of up c ed xs] by (elim conjE)
  from bspec [OF this assms] show "rowKey r = k"
    and "gr_goals r = int (length (filter (\<lambda>e. countedGoal up c ed e \<and> eventKey e = k) xs))"
    and "\<exists>e \<in> set xs. countedGoal up c ed e \<and> me_player e = gr_player r \<and> me_team e = gr_team r"
    by simp_all
qed

lemma goal_loop_keys:
  "fst ` set (foldl (goalStep up c ed) [] xs) = eventKey ` {e \<in> set xs. countedGoal up c ed e}"
  using goal_loop_invariant [of up c ed xs] by (elim conjE)

lemmas ev_defs = mkEvent_def S_def norm_def trim_def isSpace_def isShootout_def isGoalEvent_def
  upper_def asciiUpper_def goalKey_def mapAdd_def mapHas_def mapUpd_def sortBy_def

text \<open>
  C2 (as amended). \<open>getGoalRanking\<close> counts exactly the events of the competition and
  edition that are outside the shootout period, have type GOAL or PK and carry a
  non-empty player and a non-empty team. Whenever the map key \<open>player__team\<close> tells the
  (player, team) pairs of those events apart, the result has one row per pair, the
  row's count is the number of those events with that pair, and the rows are in
  descending order of count.
\<close>

theorem getGoalRanking_counts_groups:
  assumes inj: "inj_on (\<lambda>(p, t). goalKey p t)
                  ((\<lambda>e. (me_player e, me_team e)) ` {e \<in> set events. countedGoal up c ed e})"
  shows "sorted_wrt (\<lambda>a b. gr_goals b \<le> gr_goals a) (getGoalRanking up events c ed) \<and>
    distinct (map (\<lambda>r. (gr_player r, gr_team r)) (getGoalRanking up events c ed)) \<and>
    (\<lambda>r. (gr_player r, gr_team r)) ` set (getGoalRanking up events c ed) =
      (\<lambda>e. (me_player e, me_team e)) ` {e \<in> set events. countedGoal up c ed e} \<and>
    (\<forall>r \<in> set (getGoalRanking up events c ed).
        gr_goals r = int (length (filter (\<lambda>e. countedGoal up c ed e \<and>
                           me_player e = gr_player r \<and> me_team e = gr_team r) events)))"
proof -
  let ?R = "getGoalRanking up events c ed"
  let ?m = "foldl (goalStep up c ed) [] events"
  let ?Q = "{e \<in> set events. countedGoal up c ed e}"
  let ?pt = "\<lambda>e. (me_player e, me_team e)"
  let ?rpt = "\<lambda>r. (gr_player r, gr_team r)"
  let ?g = "\<lambda>(p, t). goalKey p t"
  have inQ: "?rpt r \<in> ?pt ` ?Q" if "(k, r) \<in> set ?m" for k r
  proof -
    from goal_loop_rows(3) [OF that] obtain e'
      where e': "e' \<in> set events" "countedGoal up c ed e'"
        "me_player e' = gr_player r" "me_team e' = gr_team r" by blast
    then have "e' \<in> ?Q" by simp
    then have "?pt e' \<in> ?pt ` ?Q" by (rule imageI)
    with e'(3,4) show ?thesis by simp
  qed
  have keyeq: "eventKey e = rowKey r \<longleftrightarrow> ?pt e = ?rpt r"
    if "(k, r) \<in> set ?m" "e \<in> ?Q" for k r e
  proof -
    from that(2) have b: "?pt e \<in> ?pt ` ?Q" by (rule imageI)
    have "?g (?pt e) = ?g (?rpt r) \<Longrightarrow> ?pt e = ?rpt r"
      by (rule inj_onD [OF inj _ b inQ [OF that(1)]])
    then show ?thesis by (auto simp: eventKey_def rowKey_def)
  qed
  have 1: "sorted_wrt (\<lambda>a b. gr_goals b \<le> gr_goals a) ?R"
    unfolding getGoalRanking_def by (rule sortBy_desc_sorted)
  have 2: "distinct (map ?rpt ?R)"
  proof -
    have "rowKey = ?g \<circ> ?rpt" by (rule ext) (simp add: rowKey_def)
    then have "distinct (map (?g \<circ> ?rpt) ?R)"
      using getGoalRanking_keys_distinct [of up events c ed] by (simp only:)
    then have "distinct ?R" and "inj_on (?g \<circ> ?rpt) (set ?R)"
      by (simp_all only: distinct_map)
    from this(2) have "inj_on ?rpt (set ?R)" by (rule inj_on_imageI2)
    with \<open>distinct ?R\<close> show ?thesis by (simp only: distinct_map)
  qed
  have 3: "?rpt ` set ?R = ?pt ` ?Q"
  proof (intro equalityI subsetI)
    fix x assume "x \<in> ?rpt ` set ?R"
    then obtain r where r: "r \<in> set ?R" "x = ?rpt r" by (rule imageE)
    from r(1) obtain k where "(k, r) \<in> set ?m" by (auto simp: getGoalRanking_set)
    from inQ [OF this] r(2) show "x \<in> ?pt ` ?Q" by simp
  next
    fix x assume "x \<in> ?pt ` ?Q"
    then obtain e where e: "e \<in> ?Q" "x = ?pt e" by (rule imageE)
    from e(1) have "eventKey e \<in> eventKey ` ?Q" by (rule imageI)
    then have "eventKey e \<in> fst ` set ?m" by (simp only: goal_loop_keys)
    then obtain kr where kr: "kr \<in> set ?m" "eventKey e = fst kr" by (rule imageE)
    obtain k r where krd: "kr = (k, r)" by (cases kr)
    with kr have m: "(k, r) \<in> set ?m" and "eventKey e = k" by simp_all
    with goal_loop_rows(1) [OF m] have "eventKey e = rowKey r" by simp
    with keyeq [OF m e(1)] have "?pt e = ?rpt r" by simp
    moreover from m have "r \<in> set ?R" by (force simp: getGoalRanking_set)
    ultimately show "x \<in> ?rpt ` set ?R" using e(2) by (simp add: image_iff) (rule bexI [of _ r], simp_all)
  qed
  have 4: "gr_goals r = int (length (filter (\<lambda>e. countedGoal up c ed e \<and>
                           me_player e = gr_player r \<and> me_team e = gr_team r) events))"
    if "r \<in> set ?R" for r
  proof -
    from that obtain k where m: "(k, r) \<in> set ?m" by (auto simp: getGoalRanking_set)
    have k: "rowKey r = k" by (rule goal_loop_rows(1) [OF m])
    have "filter (\<lambda>e. countedGoal up c ed e \<and> eventKey e = k) events =
          filter (\<lambda>e. countedGoal up c ed e \<and> me_player e = gr_player r \<and> me_team e = gr_team r) events"
    proof (rule filter_cong [OF refl])
      fix e assume "e \<in> set events"
      show "(countedGoal up c ed e \<and> eventKey e = k) =
            (countedGoal up c ed e \<and> me_player e = gr_player r \<and> me_team e = gr_team r)"
      proof (cases "countedGoal up c ed e")
        case True
        with \<open>e \<in> set events\<close> have "e \<in> ?Q" by simp
        from keyeq [OF m this] k True show ?thesis by simp
      next
        case False
        then show ?thesis by simp
      qed
    qed
    with goal_loop_rows(2) [OF m] show ?thesis by simp
  qed
  from 1 2 3 4 show ?thesis by (intro conjI ballI)
qed


theorem getGoalRanking_counts_groups_witness:
  "inj_on (\<lambda>(p, t). goalKey p t)
     ((\<lambda>e. (me_player e, me_team e)) `
        {e \<in> set [mkEvent (S ''WC'') (S ''2026'') (S ''GOAL'') (S ''X'') (S ''A'') [] (S ''1H'') [],
                  mkEvent (S ''WC'') (S ''2026'') (S ''PK'') (S ''Y'') (S ''B'') [] (S ''2H'') [],
                  mkEvent (S ''WC'') (S ''2026'') (S ''GOAL'') (S ''X'') (S ''A'') [] (S ''PSO'') [],
                  mkEvent (S ''WC'') (S ''2026'') (S ''GOAL'') (S ''Y'') (S ''B'') [] (S ''ET'') []].
           countedGoal asciiUpper (S ''WC'') (S ''2026'') e}) \<and>
   getGoalRanking asciiUpper
     [mkEvent (S ''WC'') (S ''2026'') (S ''GOAL'') (S ''X'') (S ''A'') [] (S ''1H'') [],
      mkEvent (S ''WC'') (S ''2026'') (S ''PK'') (S ''Y'') (S ''B'') [] (S ''2H'') [],
      mkEvent (S ''WC'') (S ''2026'') (S ''GOAL'') (S ''X'') (S ''A'') [] (S ''PSO'') [],
      mkEvent (S ''WC'') (S ''2026'') (S ''GOAL'') (S ''Y'') (S ''B'') [] (S ''ET'') []]
     (S ''WC'') (S ''2026'') =
   [\<lparr>gr_player = S ''B'', gr_team = S ''Y'', gr_goals = 2\<rparr>,
    \<lparr>gr_player = S ''A'', gr_team = S ''X'', gr_goals = 1\<rparr>]"
proof -
  let ?evs = "[mkEvent (S ''WC'') (S ''2026'') (S ''GOAL'') (S ''X'') (S ''A'') [] (S ''1H'') [],
                  mkEvent (S ''WC'') (S ''2026'') (S ''PK'') (S ''Y'') (S ''B'') [] (S ''2H'') [],
                  mkEvent (S ''WC'') (S ''2026'') (S ''GOAL'') (S ''X'') (S ''A'') [] (S ''PSO'') [],
                  mkEvent (S ''WC'') (S ''2026'') (S ''GOAL'') (S ''Y'') (S ''B'') [] (S ''ET'') []]"
  have h: "inj_on (\<lambda>(p, t). goalKey p t)
     ((\<lambda>e. (me_player e, me_team e)) ` {e \<in> set ?evs. countedGoal asciiUpper (S ''WC'') (S ''2026'') e})"
    by (simp only: set_filter [symmetric]) (simp add: ev_defs countedGoal_def del: set_filter)
  have r: "getGoalRanking asciiUpper ?evs (S ''WC'') (S ''2026'') =
   [\<lparr>gr_player = S ''B'', gr_team = S ''Y'', gr_goals = 2\<rparr>,
    \<lparr>gr_player = S ''A'', gr_team = S ''X'', gr_goals = 1\<rparr>]"
    by (simp add: getGoalRanking_def goalStep_def ev_defs)
  show ?thesis using h r getGoalRanking_counts_groups [OF h] by simp
qed


text \<open>
  The claim as it is written counts every goal-type event of the competition and
  edition outside the shootout period. An event without a player name is such an
  event, and the loop passes over it: the counts of the result add up to 0, the events
  named by the claim are 1.
\<close>

theorem getGoalRanking_unnamed_scorer_counterexample:
  "sum_list (map gr_goals
      (getGoalRanking asciiUpper
         [mkEvent (S ''WC'') (S ''2026'') (S ''GOAL'') (S ''X'') [] [] (S ''1H'') []]
         (S ''WC'') (S ''2026''))) \<noteq>
   int (length (filter (claimedGoal asciiUpper (S ''WC'') (S ''2026''))
         [mkEvent (S ''WC'') (S ''2026'') (S ''GOAL'') (S ''X'') [] [] (S ''1H'') []]))"
  by (simp add: getGoalRanking_def goalStep_def ev_defs claimedGoal_def)

text \<open>
  The second copy of the file counts the type GOAL only: a PK event gives no row
  there, and one row in the version above.
\<close>

lemma getGoalRanking_lib_ignores_PK:
  "getGoalRanking_lib asciiUpper
     [mkEvent (S ''WC'') (S ''2026'') (S ''PK'') (S ''Y'') (S ''B'') [] (S ''2H'') []]
     (S ''WC'') (S ''2026'') = [] \<and>
   getGoalRanking asciiUpper
     [mkEvent (S ''WC'') (S ''2026'') (S ''PK'') (S ''Y'') (S ''B'') [] (S ''2H'') []]
     (S ''WC'') (S ''2026'') = [\<lparr>gr_player = S ''B'', gr_team = S ''Y'', gr_goals = 1\<rparr>]"
  by (simp add: getGoalRanking_def getGoalRanking_lib_def goalStep_def goalStep_lib_def ev_defs)

section \<open>Shootout events\<close>

lemma shootout_goalStep: "isShootout up e \<Longrightarrow> goalStep up c ed m e = m"
  by (simp add: goalStep_def)

lemma shootout_goalStep_lib: "isShootout up e \<Longrightarrow> goalStep_lib up c ed m e = m"
  by (simp add: goalStep_lib_def)

lemma shootout_assistStep: "isShootout up e \<Longrightarrow> assistStep up c ed m e = m"
  by (simp add: assistStep_def)

lemma shootout_careerStep: "isShootout up e \<Longrightarrow> careerStep up c t m e = m"
  by (simp add: careerStep_def)

lemma shootout_subtotalStep: "isShootout up e \<Longrightarrow> subtotalStep up c t m e = m"
  by (simp add: subtotalStep_def)

text \<open>
  C3. An event of the shootout period (period PSO or PKSO after trimming and
  upper-casing, or a note containing the shootout marker) contributes to no scoring
  aggregate: inserting it anywhere into the event list changes neither the goal
  ranking, nor the assist ranking, nor the team career tallies, nor the per-edition
  subtotals, and each aggregate is the same on the events with all shootout events
  removed. The functions take no argument that could switch the exclusion off.
\<close>

theorem shootout_events_contribute_nothing:
  assumes "isShootout up e"
  shows "getGoalRanking up (xs @ e # ys) c ed = getGoalRanking up (xs @ ys) c ed \<and>
    getGoalRanking_lib up (xs @ e # ys) c ed = getGoalRanking_lib up (xs @ ys) c ed \<and>
    getAssistRanking up (xs @ e # ys) c ed = getAssistRanking up (xs @ ys) c ed \<and>
    getTeamCareerGA up lc (xs @ e # ys) c t = getTeamCareerGA up lc (xs @ ys) c t \<and>
    getTeamEditionSubtotals up numCmp (xs @ e # ys) c t = getTeamEditionSubtotals up numCmp (xs @ ys) c t \<and>
    getGoalRanking up (filter (\<lambda>x. \<not> isShootout up x) xs) c ed = getGoalRanking up xs c ed \<and>
    getAssistRanking up (filter (\<lambda>x. \<not> isShootout up x) xs) c ed = getAssistRanking up xs c ed \<and>
    getTeamCareerGA up lc (filter (\<lambda>x. \<not> isShootout up x) xs) c t = getTeamCareerGA up lc xs c t \<and>
    getTeamEditionSubtotals up numCmp (filter (\<lambda>x. \<not> isShootout up x) xs) c t =
      getTeamEditionSubtotals up numCmp xs c t"
proof -
  have 1: "getGoalRanking up (xs @ e # ys) c ed = getGoalRanking up (xs @ ys) c ed"
    using assms by (simp add: getGoalRanking_def shootout_goalStep)
  have 2: "getGoalRanking_lib up (xs @ e # ys) c ed = getGoalRanking_lib up (xs @ ys) c ed"
    using assms by (simp add: getGoalRanking_lib_def shootout_goalStep_lib)
  have 3: "getAssistRanking up (xs @ e # ys) c ed = getAssistRanking up (xs @ ys) c ed"
    using assms by (simp add: getAssistRanking_def shootout_assistStep)
  have 4: "getTeamCareerGA up lc (xs @ e # ys) c t = getTeamCareerGA up lc (xs @ ys) c t"
    using assms by (simp add: getTeamCareerGA_def shootout_careerStep)
  have 5: "getTeamEditionSubtotals up numCmp (xs @ e # ys) c t =
           getTeamEditionSubtotals up numCmp (xs @ ys) c t"
    using assms by (simp add: getTeamEditionSubtotals_def shootout_subtotalStep)
  have 6: "getGoalRanking up (filter (\<lambda>x. \<not> isShootout up x) xs) c ed = getGoalRanking up xs c ed"
    unfolding getGoalRanking_def
    by (simp only: foldl_skip_filter [where P = "isShootout up", OF shootout_goalStep])
  have 7: "getAssistRanking up (filter (\<lambda>x. \<not> isShootout up x) xs) c ed = getAssistRanking up xs c ed"
    unfolding getAssistRanking_def
    by (simp only: foldl_skip_filter [where P = "isShootout up", OF shootout_assistStep])
  have 8: "getTeamCareerGA up lc (filter (\<lambda>x. \<not> isShootout up x) xs) c t = getTeamCareerGA up lc xs c t"
    unfolding getTeamCareerGA_def
    by (simp only: foldl_skip_filter [where P = "isShootout up", OF shootout_careerStep])
  have 9: "getTeamEditionSubtotals up numCmp (filter (\<lambda>x. \<not> isShootout up x) xs) c t =
      getTeamEditionSubtotals up numCmp xs c t"
    unfolding getTeamEditionSubtotals_def
    by (simp only: foldl_skip_filter [where P = "isShootout up", OF shootout_subtotalStep])
  from 1 2 3 4 5 6 7 8 9 show ?thesis by (intro conjI)
qed

theorem shootout_events_contribute_nothing_witness:
  "isShootout asciiUpper (mkEvent (S ''WC'') (S ''2026'') (S ''GOAL'') (S ''X'') (S ''A'') (S ''C'') (S ''pso'') []) \<and>
   isShootout asciiUpper (mkEvent (S ''WC'') (S ''2026'') (S ''GOAL'') (S ''X'') (S ''A'') (S ''C'') (S ''ET'') [80, 75, 0x6226]) \<and>
   getGoalRanking asciiUpper
     [mkEvent (S ''WC'') (S ''2026'') (S ''GOAL'') (S ''X'') (S ''A'') (S ''C'') (S ''1H'') [],
      mkEvent (S ''WC'') (S ''2026'') (S ''GOAL'') (S ''X'') (S ''A'') (S ''C'') (S ''pso'') []]
     (S ''WC'') (S ''2026'') = [\<lparr>gr_player = S ''A'', gr_team = S ''X'', gr_goals = 1\<rparr>] \<and>
   getAssistRanking asciiUpper
     [mkEvent (S ''WC'') (S ''2026'') (S ''GOAL'') (S ''X'') (S ''A'') (S ''C'') (S ''1H'') [],
      mkEvent (S ''WC'') (S ''2026'') (S ''GOAL'') (S ''X'') (S ''A'') (S ''C'') (S ''pso'') []]
     (S ''WC'') (S ''2026'') = [\<lparr>ar_player = S ''C'', ar_team = S ''X'', ar_assists = 1\<rparr>] \<and>
   getTeamEditionSubtotals asciiUpper (\<lambda>a b. 0)
     [mkEvent (S ''WC'') (S ''2026'') (S ''GOAL'') (S ''X'') (S ''A'') (S ''C'') (S ''1H'') [],
      mkEvent (S ''WC'') (S ''2026'') (S ''GOAL'') (S ''X'') (S ''A'') (S ''C'') (S ''pso'') []]
     (S ''WC'') (S ''X'') = [\<lparr>es_edition = S ''2026'', es_goals = 1, es_assists = 1, es_ga = 2\<rparr>]"
proof -
  let ?e = "mkEvent (S ''WC'') (S ''2026'') (S ''GOAL'') (S ''X'') (S ''A'') (S ''C'') (S ''pso'') []"
  let ?g = "mkEvent (S ''WC'') (S ''2026'') (S ''GOAL'') (S ''X'') (S ''A'') (S ''C'') (S ''1H'') []"
  have h: "isShootout asciiUpper ?e" by (simp add: ev_defs)
  have n: "isShootout asciiUpper (mkEvent (S ''WC'') (S ''2026'') (S ''GOAL'') (S ''X'') (S ''A'') (S ''C'') (S ''ET'') [80, 75, 0x6226])"
    by (simp add: ev_defs)
  have g: "getGoalRanking asciiUpper ([?g] @ []) (S ''WC'') (S ''2026'') =
             [\<lparr>gr_player = S ''A'', gr_team = S ''X'', gr_goals = 1\<rparr>]"
    by (simp add: getGoalRanking_def goalStep_def ev_defs)
  have a: "getAssistRanking asciiUpper ([?g] @ []) (S ''WC'') (S ''2026'') =
             [\<lparr>ar_player = S ''C'', ar_team = S ''X'', ar_assists = 1\<rparr>]"
    by (simp add: getAssistRanking_def assistStep_def ev_defs Let_def)
  have s: "getTeamEditionSubtotals asciiUpper (\<lambda>a b. 0) ([?g] @ []) (S ''WC'') (S ''X'') =
             [\<lparr>es_edition = S ''2026'', es_goals = 1, es_assists = 1, es_ga = 2\<rparr>]"
    by (simp add: getTeamEditionSubtotals_def subtotalStep_def ev_defs Let_def)
  from shootout_events_contribute_nothing [OF h, of "[?g]" "[]" "S ''WC''" "S ''2026''" _ "S ''X''" "\<lambda>a b. 0"]
    h n g a s show ?thesis by simp
qed


section \<open>Properties of the club-squad loader\<close>

lemma squadRows_keys:
  "map (\<lambda>row. (cs_league_key row, cs_club_key row)) (squadRows low num rows) =
   map (\<lambda>r. (trim (field r (S ''league_key'')), trim (field r (S ''club_key''))))
     (filter (\<lambda>r. trim (field r (S ''league_key'')) \<noteq> [] \<and> trim (field r (S ''club_key'')) \<noteq> [])
        rows)"
  by (induction rows) (simp_all add: Let_def)

lemma squadRows_keyed:
  "row \<in> set (squadRows low num rows) \<Longrightarrow> cs_league_key row \<noteq> [] \<and> cs_club_key row \<noteq> []"
  by (induction rows) (auto simp: Let_def split: if_splits)

text \<open>
  C10. Every row returned by \<open>loadClubSquads\<close> has a non-empty \<open>league_key\<close> and a
  non-empty \<open>club_key\<close>; the returned rows are, in order, the parsed rows that have
  both keys, and a parsed row lacking either key is not in the result.
\<close>

theorem loadClubSquads_rows_keyed:
  "(\<forall>row \<in> set (loadClubSquads low num content).
       cs_league_key row \<noteq> [] \<and> cs_club_key row \<noteq> []) \<and>
   map (\<lambda>row. (cs_league_key row, cs_club_key row)) (loadClubSquads low num content) =
   map (\<lambda>r. (trim (field r (S ''league_key'')), trim (field r (S ''club_key''))))
     (filter (\<lambda>r. trim (field r (S ''league_key'')) \<noteq> [] \<and> trim (field r (S ''club_key'')) \<noteq> [])
        (readCSV content))"
  unfolding loadClubSquads_def using squadRows_keyed squadRows_keys by blast

lemma readCSV_example:
  "readCSV (S ''league_key,club_key\<newline>epl,ars\<newline>,che'') =
   [mkObj [S ''league_key'', S ''club_key''] [S ''epl'', S ''ars''],
    mkObj [S ''league_key'', S ''club_key''] [[], S ''che'']]"
  by (simp add: readCSV_def S_def stripBOM_def stripCR_def trim_def isSpace_def parseCSVLine_def)

theorem loadClubSquads_rows_keyed_witness:
  "map (\<lambda>row. (cs_league_key row, cs_club_key row))
     (loadClubSquads asciiLower (\<lambda>t. None) (S ''league_key,club_key\<newline>epl,ars\<newline>,che'')) =
   [(S ''epl'', S ''ars'')]"
  using loadClubSquads_rows_keyed [of asciiLower "\<lambda>t. None" "S ''league_key,club_key\<newline>epl,ars\<newline>,che''"]
  by (simp add: readCSV_example)
     (simp add: mkObj_def setField_def field_def nthOrEmpty_def S_def trim_def isSpace_def upt_rec)

section \<open>Properties of \<open>parseCsv\<close>\<close>








lemma trim_Nil: "trim [] = []"
  by (simp add: trim_def)












text \<open>Scanning text without quotes and line feeds splits it at the commas.\<close>

lemma splitOn_nonempty: "splitOn sep s cur \<noteq> []"
  by (induction s arbitrary: cur) simp_all











section \<open>Properties of the date normalizers\<close>

lemmas date_defs = normalizeDateToISO_def normalizeText_def collapseSpaces_def trim_def isSpace_def
  isISODate_def matchYMD_def takeDigits12_def isDigit_def sepSlashDot_def sepSlashDashDot_def
  digitsToNat_def padStart2_def S_def normDate_rep_def Let_def

lemma showNat_small: "n < 10 \<Longrightarrow> showNat n = [48 + n]"
  by (simp add: showNat.simps)

lemma showNat_2024: "showNat 2024 = [50, 48, 50, 52]"
  by (simp add: showNat.simps [of 2024] showNat.simps [of 202] showNat.simps [of 20] showNat.simps [of 2])

lemma date_examples:
  "normalizeDateToISO (S ''2024-01-05'') = S ''2024-01-05''"
  "normalizeDateToISO (S ''2024/1/5'') = S ''2024-01-05''"
  "normalizeDateToISO (S ''2024.1.5'') = S ''2024-01-05''"
  "normalizeDateToISO (S ''not-a-date'') = []"
  "normalizeDateToISO [] = []"
  "normDate_rep (S ''2024-01-05'') = S ''2024-01-05''"
  "normDate_rep (S ''2024/1/5'') = S ''2024-01-05''"
  "normDate_rep (S ''2024.1.5'') = S ''2024-01-05''"
  "normDate_rep [] = []"
  by (simp_all add: date_defs showNat_2024 showNat_small)


text \<open>
  C5 (as amended). The date normalizers are total functions. \<open>normalizeDateToISO\<close>
  maps 2024-01-05, 2024/1/5 and 2024.1.5 to 2024-01-05, and maps every input that
  matches neither of its two patterns, not-a-date and the empty string among them, to
  the empty string. \<open>normDate\<close> of repCandidate.ts maps the three dates to 2024-01-05
  and the empty string to itself, and returns every other input that does not match
  its pattern unchanged but for trimming.
\<close>

theorem date_normalizers_total:
  "normalizeDateToISO (S ''2024-01-05'') = S ''2024-01-05'' \<and>
   normalizeDateToISO (S ''2024/1/5'') = S ''2024-01-05'' \<and>
   normalizeDateToISO (S ''2024.1.5'') = S ''2024-01-05'' \<and>
   normalizeDateToISO (S ''not-a-date'') = [] \<and>
   normalizeDateToISO [] = [] \<and>
   (\<not> isISODate (normalizeText v) \<and> matchYMD sepSlashDot True (normalizeText v) = None
      \<longrightarrow> normalizeDateToISO v = []) \<and>
   normDate_rep (S ''2024-01-05'') = S ''2024-01-05'' \<and>
   normDate_rep (S ''2024/1/5'') = S ''2024-01-05'' \<and>
   normDate_rep (S ''2024.1.5'') = S ''2024-01-05'' \<and>
   normDate_rep [] = [] \<and>
   (matchYMD sepSlashDashDot False (trim s) = None \<longrightarrow> normDate_rep s = trim s)"
proof -
  have a: "normalizeDateToISO v = []"
    if "\<not> isISODate (normalizeText v) \<and> matchYMD sepSlashDot True (normalizeText v) = None"
    using that by (simp add: normalizeDateToISO_def Let_def)
  have b: "normDate_rep s = trim s" if "matchYMD sepSlashDashDot False (trim s) = None"
    using that by (simp add: normDate_rep_def Let_def)
  from a b date_examples show ?thesis by blast
qed

theorem date_normalizers_total_witness:
  "\<not> isISODate (normalizeText (S ''2024-1-5'')) \<and>
   matchYMD sepSlashDot True (normalizeText (S ''2024-1-5'')) = None \<and>
   normalizeDateToISO (S ''2024-1-5'') = [] \<and>
   matchYMD sepSlashDashDot False (trim (S ''5 Jan 2024 '')) = None \<and>
   normDate_rep (S ''5 Jan 2024 '') = S ''5 Jan 2024''"
proof -
  have h1: "\<not> isISODate (normalizeText (S ''2024-1-5'')) \<and>
            matchYMD sepSlashDot True (normalizeText (S ''2024-1-5'')) = None"
    by (simp add: date_defs)
  have h2: "matchYMD sepSlashDashDot False (trim (S ''5 Jan 2024 '')) = None"
    by (simp add: date_defs)
  have t: "trim (S ''5 Jan 2024 '') = S ''5 Jan 2024''" by (simp add: date_defs)
  from date_normalizers_total [of "S ''2024-1-5''" "S ''5 Jan 2024 ''"] h1 h2 t
  show ?thesis by simp
qed

text \<open>
  For \<open>normDate\<close> of repCandidate.ts the claim as it is written fails: the input
  not-a-date matches no pattern and comes back as it is, not as the empty string.
\<close>

theorem normDate_rep_returns_input_counterexample:
  "normDate_rep (S ''not-a-date'') = S ''not-a-date'' \<and> normDate_rep (S ''not-a-date'') \<noteq> []"
  by (simp add: date_defs)


section \<open>Properties of \<open>loadCallups\<close>\<close>







lemmas callup_defs = loadCallups_def groupMaxStep_def groupKey_def snapshotKey_def toKeyDate_def
  keyDateOf_def matchYMD_def takeDigits12_def sepSlashDash_def isDigit_def digitsToNat_def
  padStart2_def truthy_def field_def mkCallup_def trim_def isSpace_def S_def Let_def

lemma showNat_two_digits:
  assumes "10 \<le> n" "n < 100"
  shows "showNat n = [48 + n div 10, 48 + n mod 10]"
proof -
  from assms(2) have "n div 10 < 10" by arith
  with assms(1) show ?thesis
    by (simp add: showNat.simps [of n] showNat.simps [of "n div 10"])
qed








text \<open>
  The two conditions on the input are needed. The first loop skips a row whose country
  is white space only, so its group gets no maximum and both of its dated rows are kept;
  and two groups whose joined keys coincide share one maximum, so the dated row of the
  one drops the older dated row of the other.
\<close>

lemma loadCallups_blank_country_example:
  "map (\<lambda>r. r (S ''snapshot_date''))
     (loadCallups
        [mkCallup (S ''WC'') (S ''2026'') (S '' '') (S ''X'') (S ''2025-10-01''),
         mkCallup (S ''WC'') (S ''2026'') (S '' '') (S ''X'') (S ''2025-11-01'')]) =
   [Some (S ''2025-10-01''), Some (S ''2025-11-01'')]"
  by (simp add: callup_defs showNat_small showNat_two_digits)

lemma loadCallups_colliding_keys_example:
  "groupOf (mkCallup (S ''A|||B'') (S ''C'') (S ''D'') (S ''X'') (S ''2025-10-01'')) \<noteq>
   groupOf (mkCallup (S ''A'') (S ''B|||C'') (S ''D'') (S ''Y'') (S ''2025-11-01'')) \<and>
   map (\<lambda>r. r (S ''name_en''))
     (loadCallups
        [mkCallup (S ''A|||B'') (S ''C'') (S ''D'') (S ''X'') (S ''2025-10-01''),
         mkCallup (S ''A'') (S ''B|||C'') (S ''D'') (S ''Y'') (S ''2025-11-01'')]) =
   [Some (S ''Y'')]"
  by (simp add: callup_defs groupOf_def mkCallup_def field_def showNat_small showNat_two_digits)


section \<open>Properties of the club resolver\<close>

lemma js_includes_iff: "js_includes xs ys \<longleftrightarrow> (\<exists>p s. xs = p @ ys @ s)"
proof (induction xs)
  case Nil
  then show ?case by auto
next
  case (Cons x xs)
  have "take (length ys) (x # xs) = ys \<longleftrightarrow> (\<exists>s. x # xs = ys @ s)"
    by (metis append_eq_conv_conj append_take_drop_id)
  moreover have "(\<exists>p s. x # xs = p @ ys @ s) \<longleftrightarrow> (\<exists>s. x # xs = ys @ s) \<or> (\<exists>p s. xs = p @ ys @ s)"
  proof
    assume "\<exists>p s. x # xs = p @ ys @ s"
    then obtain p s where ps: "x # xs = p @ ys @ s" by blast
    show "(\<exists>s. x # xs = ys @ s) \<or> (\<exists>p s. xs = p @ ys @ s)"
    proof (cases p)
      case Nil
      with ps show ?thesis by auto
    next
      case (Cons a p')
      with ps have "xs = p' @ ys @ s" by simp
      then show ?thesis by blast
    qed
  next
    assume "(\<exists>s. x # xs = ys @ s) \<or> (\<exists>p s. xs = p @ ys @ s)"
    then show "\<exists>p s. x # xs = p @ ys @ s"
    proof
      assume "\<exists>s. x # xs = ys @ s"
      then obtain s where "x # xs = [] @ ys @ s" by auto
      then show ?thesis by blast
    next
      assume "\<exists>p s. xs = p @ ys @ s"
      then obtain p s where "x # xs = (x # p) @ ys @ s" by auto
      then show ?thesis by blast
    qed
  qed
  ultimately show ?case using Cons.IH by simp
qed

lemma findClub_iff:
  "findClub nfkc low c m \<longleftrightarrow>
     (\<exists>x \<in> set ([cm_club_display_en m, cm_club_display_ja m] @ expandAliases m).
        keyNormalize nfkc low x \<noteq> [] \<and>
        (keyNormalize nfkc low x = c \<or>
         (\<exists>p s. keyNormalize nfkc low x = p @ c @ s) \<or>
         (\<exists>p s. c = p @ keyNormalize nfkc low x @ s)))"
  unfolding findClub_def Let_def list_ex_iff js_includes_iff by auto

lemma splitOn_piece:
  "\<forall>c \<in> set x. \<not> sep c \<Longrightarrow> sep c0 \<Longrightarrow>
   splitOn sep (x @ c0 # rest) cur = (cur @ x) # splitOn sep rest []"
  by (induction x arbitrary: cur) simp_all

lemma splitOn_last: "\<forall>c \<in> set x. \<not> sep c \<Longrightarrow> splitOn sep x cur = [cur @ x]"
  by (induction x arbitrary: cur) simp_all

lemma splitOn_joinWith:
  "length seps + 1 = length pieces \<Longrightarrow> \<forall>c \<in> set seps. sep c \<Longrightarrow>
   \<forall>x \<in> set pieces. \<forall>c \<in> set x. \<not> sep c \<Longrightarrow>
   splitOn sep (joinWith pieces seps) [] = pieces"
proof (induction pieces seps rule: joinWith.induct)
  case (1 seps)
  then show ?case by simp
next
  case (2 x seps)
  then show ?case by (simp add: splitOn_last)
next
  case (3 x y xs)
  then show ?case by simp
next
  case (4 x y xs c cs)
  then have "splitOn sep (joinWith (y # xs) cs) [] = y # xs" by simp
  with 4 show ?case by (simp add: splitOn_piece)
qed

lemma joinWith_splitOn: "joinWith (splitOn sep s cur) (filter sep s) = cur @ s"
proof (induction s arbitrary: cur)
  case Nil
  then show ?case by simp
next
  case (Cons c s)
  show ?case
  proof (cases "sep c")
    case True
    obtain y ys where ys: "splitOn sep s [] = y # ys"
      using splitOn_nonempty [of sep s "[]"] by (cases "splitOn sep s []") auto
    have "joinWith (y # ys) (filter sep s) = s" using Cons.IH [of "[]"] ys by simp
    with True ys show ?thesis by simp
  next
    case False
    with Cons.IH [of "cur @ [c]"] show ?thesis by simp
  qed
qed

lemma splitOn_sepfree:
  "\<forall>c \<in> set cur. \<not> sep c \<Longrightarrow> \<forall>x \<in> set (splitOn sep s cur). \<forall>c \<in> set x. \<not> sep c"
proof (induction s arbitrary: cur)
  case Nil
  then show ?case by simp
next
  case (Cons a s)
  show ?case
  proof (cases "sep a")
    case True
    have "\<forall>x \<in> set (splitOn sep s []). \<forall>c \<in> set x. \<not> sep c" by (rule Cons.IH) simp
    with True Cons.prems show ?thesis by simp
  next
    case False
    with Cons.prems have "\<forall>c \<in> set (cur @ [a]). \<not> sep c" by simp
    from Cons.IH [OF this] False show ?thesis by simp
  qed
qed

lemma length_splitOn: "length (splitOn sep s cur) = length (filter sep s) + 1"
  by (induction s arbitrary: cur) simp_all

lemma splitsInto_splitOn: "splitsInto sep s (splitOn sep s [])"
  unfolding splitsInto_def
proof (intro exI [of _ "filter sep s"] conjI)
  show "length (filter sep s) + 1 = length (splitOn sep s [])" by (simp add: length_splitOn)
  show "\<forall>c \<in> set (filter sep s). sep c" by simp
  show "\<forall>x \<in> set (splitOn sep s []). \<forall>c \<in> set x. \<not> sep c" by (rule splitOn_sepfree) simp
  show "s = joinWith (splitOn sep s []) (filter sep s)" by (simp add: joinWith_splitOn)
qed

lemma splitsInto_unique: "splitsInto sep s pieces \<Longrightarrow> splitOn sep s [] = pieces"
  unfolding splitsInto_def using splitOn_joinWith by blast

lemma splitsInto_Nil: "splitsInto sep [] pieces \<Longrightarrow> pieces = [[]]"
  using splitsInto_unique [of sep "[]" pieces] by simp

lemma expandAliases_pieces:
  assumes "splitsInto aliasSep (cm_aliases m) ps1"
    and "splitsInto (\<lambda>c. c = 124) (cm_club_alias_en m) ps2"
    and "splitsInto (\<lambda>c. c = 124) (cm_club_alias_ja m) ps3"
  shows "expandAliases m = filter (\<lambda>x. x \<noteq> []) (map trim (ps1 @ ps2 @ ps3))"
proof -
  have part: "filter (\<lambda>x. x \<noteq> []) (map trim (if s \<noteq> [] then splitOn sep s [] else [])) =
              filter (\<lambda>x. x \<noteq> []) (map trim ps)" if "splitsInto sep s ps" for sep s ps
  proof (cases "s = []")
    case True
    with that splitsInto_Nil have "ps = [[]]" by blast
    with True show ?thesis by (simp add: trim_Nil)
  next
    case False
    with splitsInto_unique [OF that] show ?thesis by simp
  qed
  show ?thesis
    unfolding expandAliases_def map_append filter_append
    by (simp only: part [OF assms(1)] part [OF assms(2)] part [OF assms(3)])
qed

text \<open>
  C8. When no master row has a normalized \<open>league_display\<close> equal to the normalized
  league input, \<open>resolveClubFromMaster\<close> searches the whole master table: its result
  is the first row of the table that matches the club text, so the club resolves
  whenever some row matches. A row matches when one of its English display, its
  Japanese display and its aliases is, after normalization, non-empty and equal to the
  club text, or contains it, or is contained in it. The aliases of a row are the
  non-empty trimmed pieces of its three alias columns, in the order \<open>aliases\<close>,
  \<open>club_alias_en\<close>, \<open>club_alias_ja\<close>: the pieces of a column are the separator-free
  texts that, joined by one separator each, make up the column (\<open>aliases\<close> is cut at
  bar, slash, semicolon and comma, the other two at the bar), and every column has
  such pieces.
\<close>

theorem resolveClub_league_fallback:
  assumes "filter (\<lambda>m. keyNormalize nfkc low (cm_league_display m) = keyNormalize nfkc low leagueDisp)
             masters = []"
  shows "resolveClubFromMaster nfkc low masters leagueDisp clubDisp =
           map_option resolvedOf (find (findClub nfkc low (keyNormalize nfkc low clubDisp)) masters) \<and>
         ((\<exists>m \<in> set masters. findClub nfkc low (keyNormalize nfkc low clubDisp) m) \<longrightarrow>
            (\<exists>hit \<in> set masters. findClub nfkc low (keyNormalize nfkc low clubDisp) hit \<and>
               resolveClubFromMaster nfkc low masters leagueDisp clubDisp = Some (resolvedOf hit))) \<and>
         (findClub nfkc low c m \<longleftrightarrow>
            (\<exists>x \<in> set ([cm_club_display_en m, cm_club_display_ja m] @ expandAliases m).
               keyNormalize nfkc low x \<noteq> [] \<and>
               (keyNormalize nfkc low x = c \<or>
                (\<exists>p s. keyNormalize nfkc low x = p @ c @ s) \<or>
                (\<exists>p s. c = p @ keyNormalize nfkc low x @ s)))) \<and>
         splitsInto sep col (splitOn sep col []) \<and>
         (splitsInto aliasSep (cm_aliases m) ps1 \<and>
          splitsInto (\<lambda>c. c = 124) (cm_club_alias_en m) ps2 \<and>
          splitsInto (\<lambda>c. c = 124) (cm_club_alias_ja m) ps3 \<longrightarrow>
            expandAliases m = filter (\<lambda>x. x \<noteq> []) (map trim (ps1 @ ps2 @ ps3)) \<and>
            (findClub nfkc low c m \<longleftrightarrow>
               (\<exists>x \<in> set ([cm_club_display_en m, cm_club_display_ja m] @
                            filter (\<lambda>x. x \<noteq> []) (map trim (ps1 @ ps2 @ ps3))).
                  keyNormalize nfkc low x \<noteq> [] \<and>
                  (keyNormalize nfkc low x = c \<or>
                   (\<exists>p s. keyNormalize nfkc low x = p @ c @ s) \<or>
                   (\<exists>p s. c = p @ keyNormalize nfkc low x @ s)))))"
proof -
  let ?c = "keyNormalize nfkc low clubDisp"
  have 1: "resolveClubFromMaster nfkc low masters leagueDisp clubDisp =
           map_option resolvedOf (find (findClub nfkc low ?c) masters)"
    using assms by (simp add: resolveClubFromMaster_def resolvedOf_def Let_def split: option.splits)
  have 2: "\<exists>hit \<in> set masters. findClub nfkc low ?c hit \<and>
               resolveClubFromMaster nfkc low masters leagueDisp clubDisp = Some (resolvedOf hit)"
    if "\<exists>m \<in> set masters. findClub nfkc low ?c m"
  proof -
    from that obtain hit where h: "find (findClub nfkc low ?c) masters = Some hit"
      by (cases "find (findClub nfkc low ?c) masters") (auto simp: find_None_iff)
    then have "hit \<in> set masters" "findClub nfkc low ?c hit"
      by (auto simp: find_Some_iff)
    with h 1 show ?thesis by auto
  qed
  note 3 = findClub_iff [of nfkc low c m]
  have 4: "splitsInto sep col (splitOn sep col [])"
    by (rule splitsInto_splitOn)
  have 5: "expandAliases m = filter (\<lambda>x. x \<noteq> []) (map trim (ps1 @ ps2 @ ps3)) \<and>
            (findClub nfkc low c m \<longleftrightarrow>
               (\<exists>x \<in> set ([cm_club_display_en m, cm_club_display_ja m] @
                            filter (\<lambda>x. x \<noteq> []) (map trim (ps1 @ ps2 @ ps3))).
                  keyNormalize nfkc low x \<noteq> [] \<and>
                  (keyNormalize nfkc low x = c \<or>
                   (\<exists>p s. keyNormalize nfkc low x = p @ c @ s) \<or>
                   (\<exists>p s. c = p @ keyNormalize nfkc low x @ s))))"
    if "splitsInto aliasSep (cm_aliases m) ps1 \<and>
          splitsInto (\<lambda>c. c = 124) (cm_club_alias_en m) ps2 \<and>
          splitsInto (\<lambda>c. c = 124) (cm_club_alias_ja m) ps3"
  proof -
    from that have e: "expandAliases m = filter (\<lambda>x. x \<noteq> []) (map trim (ps1 @ ps2 @ ps3))"
      by (intro expandAliases_pieces) simp_all
    from 3 show ?thesis unfolding e by simp
  qed
  have c2: "(\<exists>m \<in> set masters. findClub nfkc low ?c m) \<longrightarrow>
            (\<exists>hit \<in> set masters. findClub nfkc low ?c hit \<and>
               resolveClubFromMaster nfkc low masters leagueDisp clubDisp = Some (resolvedOf hit))"
    by (rule impI) (rule 2)
  have c5: "splitsInto aliasSep (cm_aliases m) ps1 \<and>
          splitsInto (\<lambda>c. c = 124) (cm_club_alias_en m) ps2 \<and>
          splitsInto (\<lambda>c. c = 124) (cm_club_alias_ja m) ps3 \<longrightarrow>
            expandAliases m = filter (\<lambda>x. x \<noteq> []) (map trim (ps1 @ ps2 @ ps3)) \<and>
            (findClub nfkc low c m \<longleftrightarrow>
               (\<exists>x \<in> set ([cm_club_display_en m, cm_club_display_ja m] @
                            filter (\<lambda>x. x \<noteq> []) (map trim (ps1 @ ps2 @ ps3))).
                  keyNormalize nfkc low x \<noteq> [] \<and>
                  (keyNormalize nfkc low x = c \<or>
                   (\<exists>p s. keyNormalize nfkc low x = p @ c @ s) \<or>
                   (\<exists>p s. c = p @ keyNormalize nfkc low x @ s))))"
    by (rule impI) (rule 5)
  show ?thesis by (rule conjI [OF 1 conjI [OF c2 conjI [OF 3 conjI [OF 4 c5]]]])
qed

lemmas club_defs = exampleMasters_def resolveClubFromMaster_def keyNormalize_def asciiLower_def
  findClub_def expandAliases_def aliasSep_def resolvedOf_def trim_def isSpace_def S_def Let_def

theorem resolveClub_league_fallback_witness:
  "filter (\<lambda>m. keyNormalize (\<lambda>s. s) asciiLower (cm_league_display m) =
               keyNormalize (\<lambda>s. s) asciiLower (S ''Premire League'')) exampleMasters = [] \<and>
   splitsInto aliasSep (cm_aliases (exampleMasters ! 1)) [S ''Gunners'', S '' Arsenal FC''] \<and>
   expandAliases (exampleMasters ! 1) = [S ''Gunners'', S ''Arsenal FC''] \<and>
   resolveClubFromMaster (\<lambda>s. s) asciiLower exampleMasters (S ''Premire League'') (S ''gunners'') =
     Some \<lparr>rc_league_key = S ''epl'', rc_club_key = S ''arsenal'',
           rc_club_display_ja = [0x30A2, 0x30FC, 0x30BB, 0x30CA, 0x30EB],
           rc_league_display = S ''Premier League''\<rparr> \<and>
   resolveClubFromMaster (\<lambda>s. s) asciiLower (map (\<lambda>m. m\<lparr>cm_aliases := []\<rparr>) exampleMasters)
     (S ''Premire League'') (S ''gunners'') = None"
proof -
  let ?m = "exampleMasters ! 1"
  have h: "filter (\<lambda>m. keyNormalize (\<lambda>s. s) asciiLower (cm_league_display m) =
               keyNormalize (\<lambda>s. s) asciiLower (S ''Premire League'')) exampleMasters = []"
    by (simp add: club_defs)
  note inst = resolveClub_league_fallback [OF h, of "S ''gunners''" _ ?m aliasSep "cm_aliases ?m"
      "[S ''Gunners'', S '' Arsenal FC'']" "[[]]" "[[]]"]
  have sp: "splitOn aliasSep (cm_aliases ?m) [] = [S ''Gunners'', S '' Arsenal FC'']"
    by (simp add: exampleMasters_def aliasSep_def S_def)
  from inst have "splitsInto aliasSep (cm_aliases ?m) (splitOn aliasSep (cm_aliases ?m) [])" by blast
  then have p1: "splitsInto aliasSep (cm_aliases ?m) [S ''Gunners'', S '' Arsenal FC'']"
    by (simp only: sp)
  have p2: "splitsInto (\<lambda>c. c = 124) (cm_club_alias_en ?m) [[]]"
    "splitsInto (\<lambda>c. c = 124) (cm_club_alias_ja ?m) [[]]"
    by (simp_all add: splitsInto_def exampleMasters_def)
  from inst p1 p2
  have "expandAliases ?m =
          filter (\<lambda>x. x \<noteq> []) (map trim ([S ''Gunners'', S '' Arsenal FC''] @ [[]] @ [[]]))"
    by blast
  then have e: "expandAliases ?m = [S ''Gunners'', S ''Arsenal FC'']"
    by (simp add: trim_def isSpace_def S_def)
  have f: "find (findClub (\<lambda>s. s) asciiLower (keyNormalize (\<lambda>s. s) asciiLower (S ''gunners'')))
             exampleMasters = Some ?m"
    by (simp add: club_defs)
  have r: "resolvedOf ?m =
      \<lparr>rc_league_key = S ''epl'', rc_club_key = S ''arsenal'',
           rc_club_display_ja = [0x30A2, 0x30FC, 0x30BB, 0x30CA, 0x30EB],
           rc_league_display = S ''Premier League''\<rparr>"
    by (simp add: exampleMasters_def resolvedOf_def)
  from inst f r
  have res: "resolveClubFromMaster (\<lambda>s. s) asciiLower exampleMasters (S ''Premire League'') (S ''gunners'') =
     Some \<lparr>rc_league_key = S ''epl'', rc_club_key = S ''arsenal'',
           rc_club_display_ja = [0x30A2, 0x30FC, 0x30BB, 0x30CA, 0x30EB],
           rc_league_display = S ''Premier League''\<rparr>"
    by simp
  have none: "resolveClubFromMaster (\<lambda>s. s) asciiLower (map (\<lambda>m. m\<lparr>cm_aliases := []\<rparr>) exampleMasters)
     (S ''Premire League'') (S ''gunners'') = None"
    by (simp add: club_defs)
  from h p1 e res none show ?thesis by (intro conjI)
qed


section \<open>Properties of the name map\<close>

lemma trim_trim: "trim (trim s) = trim s"
proof -
  let ?t = "dropWhile isSpace s"
  let ?u = "rev (dropWhile isSpace (rev ?t))"
  have u: "trim s = ?u" by (simp add: trim_def)
  have "dropWhile isSpace ?u = ?u"
  proof (cases "?u = []")
    case True
    show ?thesis by (simp only: True dropWhile.simps)
  next
    case False
    have split: "?t = ?u @ rev (takeWhile isSpace (rev ?t))"
      by (metis rev_append rev_rev_ident takeWhile_dropWhile_id)
    with False have "hd ?t = hd ?u" by (metis hd_append2)
    moreover from split False have "?t \<noteq> []" by (metis append_is_Nil_conv)
    then have "\<not> isSpace (hd ?t)" by (rule hd_dropWhile)
    ultimately show ?thesis by (simp add: dropWhile_eq_self_iff)
  qed
  then have "trim ?u = rev (dropWhile isSpace (rev ?u))" by (simp only: trim_def)
  also have "\<dots> = ?u" by simp
  finally show ?thesis by (simp only: u)
qed

lemma setAdd_Cons: "\<exists>ks'. setAdd (k # ks) x = k # ks'"
  by (simp add: setAdd_def)

lemma set_setAdd: "set (setAdd xs x) = insert x (set xs)"
  by (auto simp: setAdd_def)

lemma candidateKeys_head:
  "\<exists>ks. candidateKeys nfkd n b = keyOf (trim n) b # ks"
proof -
  let ?k1 = "keyOf (trim n) b"
  have a: "\<exists>ks. foldl setAdd [] [?k1, k2, k3, k4] = ?k1 # ks" for k2 k3 k4
    by (simp add: setAdd_def)
  then obtain ks where ks: "foldl setAdd []
        [?k1, keyOf (normName (trim n)) b, keyOf (foldDiacritics nfkd (trim n)) b,
         keyOf (foldDiacritics nfkd (normName (trim n))) b] = ?k1 # ks" by blast
  have "\<exists>ks'. setAdd (setAdd (?k1 # ks) x) y = ?k1 # ks'" for x y
    by (simp add: setAdd_def)
  with ks show ?thesis by (auto simp: candidateKeys_def Let_def)
qed

lemma candidateKeys_normName:
  "keyOf (normName (trim n)) b \<in> set (candidateKeys nfkd n b)"
  by (simp add: candidateKeys_def Let_def set_setAdd)

lemma foldl_index_upd:
  "idx k = Some e \<or> k \<in> set ks \<Longrightarrow> foldl (\<lambda>idx k'. idx(k' \<mapsto> e)) idx ks k = Some e"
proof (induction ks arbitrary: idx)
  case Nil
  then show ?case by simp
next
  case (Cons a ks)
  have "(idx(a \<mapsto> e)) k = Some e \<or> k \<in> set ks"
    using Cons.prems by (cases "k = a") auto
  from Cons.IH [of "idx(a \<mapsto> e)", OF this] show ?case by simp
qed

lemma upsert_index:
  assumes "k \<in> set (candidateKeys nfkd raw birth)"
  shows "\<exists>e. nms_index (upsertNameMap nfkd today store raw birth ja) k = Some e \<and> nm_name_ja e = ja"
proof -
  let ?entry = "\<lparr>nm_key = keyOf (normName (trim raw)) birth, nm_name_en = normName (trim raw),
                  nm_birth_date = birth, nm_name_ja = ja, nm_source = S ''wikidata'',
                  nm_updated_at = today\<rparr>"
  have "nms_index (upsertNameMap nfkd today store raw birth ja) =
        foldl (\<lambda>idx k'. idx(k' \<mapsto> ?entry)) (nms_index store) (candidateKeys nfkd raw birth)"
    by (simp add: upsertNameMap_def Let_def)
  moreover have "foldl (\<lambda>idx k'. idx(k' \<mapsto> ?entry)) (nms_index store) (candidateKeys nfkd raw birth) k
        = Some ?entry"
    using assms by (intro foldl_index_upd) simp
  ultimately show ?thesis by simp
qed

lemma lookup_first_key:
  assumes "keyOf (trim n) (normDate d) \<in> set (candidateKeys nfkd raw birth)" "ja \<noteq> []"
  shows "lookupNameJa nfkd (upsertNameMap nfkd today store raw birth ja) n d = ja"
proof -
  obtain ks where ks: "candidateKeys nfkd (trim n) (normDate d) = keyOf (trim (trim n)) (normDate d) # ks"
    using candidateKeys_head by blast
  from upsert_index [OF assms(1)] obtain e
    where e: "nms_index (upsertNameMap nfkd today store raw birth ja) (keyOf (trim n) (normDate d)) = Some e"
      "nm_name_ja e = ja" by blast
  with ks assms(2) show ?thesis
    by (simp add: lookupNameJa_def Let_def trim_trim)
qed


lemmas name_defs = lookupNameJa_def upsertNameMap_def candidateKeys_def keyOf_def normName_def
  loosenName_def foldDiacritics_def collapseSpaces_def setAdd_def emptyStore_def baumannJa_def
  normDate_def isISODate_def isDigit_def trim_def isSpace_def S_def Let_def

lemma normName_O_Baumann: "normName (trim (S ''O. Baumann'')) = S ''O Baumann''"
  by (simp add: normName_def collapseSpaces_def trim_def isSpace_def S_def)

lemma normDate_1990: "normDate (S ''1990-01-01'') = S ''1990-01-01''"
  by (simp add: normDate_def isISODate_def isDigit_def trim_def isSpace_def S_def)

text \<open>
  C4 (as amended). After \<open>upsertNameMap\<close> has stored a non-empty verified name for a
  raw name and a birth date, the dictionary lookup with a birth date that normalizes to
  the same date resolves to that name under the raw name itself and under its
  punctuation-normalized form (\<open>normName\<close>: full stops removed, apostrophes and dashes
  unified, white space collapsed). With the entry for O. Baumann, 1990-01-01, the
  lookups under O Baumann and under O. Baumann resolve to the stored name.
\<close>

theorem nameMap_upsert_then_lookup:
  assumes "name_ja \<noteq> []" "normDate birth_date = birth"
  shows "lookupNameJa nfkd (upsertNameMap nfkd today store raw birth name_ja) raw birth_date = name_ja \<and>
    lookupNameJa nfkd (upsertNameMap nfkd today store raw birth name_ja) (normName (trim raw)) birth_date
      = name_ja \<and>
    lookupNameJa nfkd (upsertNameMap nfkd today store (S ''O. Baumann'') (S ''1990-01-01'') name_ja)
      (S ''O Baumann'') (S ''1990-01-01'') = name_ja \<and>
    lookupNameJa nfkd (upsertNameMap nfkd today store (S ''O. Baumann'') (S ''1990-01-01'') name_ja)
      (S ''O. Baumann'') (S ''1990-01-01'') = name_ja"
proof -
  have k1: "keyOf (trim r) b \<in> set (candidateKeys nfkd r b)" for r b
    using candidateKeys_head [of nfkd r b] by auto
  have k2: "keyOf (trim (normName (trim r))) b \<in> set (candidateKeys nfkd r b)" for r b
    using candidateKeys_normName [of r b nfkd] by (simp add: keyOf_def trim_trim)
  have 1: "lookupNameJa nfkd (upsertNameMap nfkd today store raw birth name_ja) raw birth_date = name_ja"
    using lookup_first_key [of raw birth_date nfkd raw birth name_ja today store] k1 [of raw birth] assms
    by simp
  have 2: "lookupNameJa nfkd (upsertNameMap nfkd today store raw birth name_ja)
             (normName (trim raw)) birth_date = name_ja"
    using lookup_first_key [of "normName (trim raw)" birth_date nfkd raw birth name_ja today store]
      k2 [of raw birth] assms by simp
  have 3: "lookupNameJa nfkd (upsertNameMap nfkd today store (S ''O. Baumann'') (S ''1990-01-01'') name_ja)
      (S ''O Baumann'') (S ''1990-01-01'') = name_ja"
    using lookup_first_key [of "normName (trim (S ''O. Baumann''))" "S ''1990-01-01''" nfkd
        "S ''O. Baumann''" "S ''1990-01-01''" name_ja today store]
      k2 [of "S ''O. Baumann''" "S ''1990-01-01''"] assms(1)
    by (simp add: normName_O_Baumann normDate_1990)
  have 4: "lookupNameJa nfkd (upsertNameMap nfkd today store (S ''O. Baumann'') (S ''1990-01-01'') name_ja)
      (S ''O. Baumann'') (S ''1990-01-01'') = name_ja"
    using lookup_first_key [of "S ''O. Baumann''" "S ''1990-01-01''" nfkd
        "S ''O. Baumann''" "S ''1990-01-01''" name_ja today store]
      k1 [of "S ''O. Baumann''" "S ''1990-01-01''"] assms(1)
    by (simp add: normDate_1990)
  from 1 2 3 4 show ?thesis by (intro conjI)
qed

theorem nameMap_upsert_then_lookup_witness:
  "baumannJa \<noteq> [] \<and> normDate (S ''1990/1/1'') = S ''1990-01-01'' \<and>
   lookupNameJa (\<lambda>s. s)
     (upsertNameMap (\<lambda>s. s) (S ''2025-01-01'') emptyStore (S ''O. Baumann'') (S ''1990-01-01'') baumannJa)
     (S ''O Baumann'') (S ''1990/1/1'') = baumannJa"
proof -
  have a: "baumannJa \<noteq> []" by (simp add: baumannJa_def)
  have b: "normDate (S ''1990/1/1'') = S ''1990-01-01''"
    by (simp add: normDate_def isISODate_def matchYMD_def takeDigits12_def sepSlashDashDot_def
        padStart2_def isDigit_def trim_def isSpace_def S_def)
  from nameMap_upsert_then_lookup [OF a b, of "\<lambda>s. s" "S ''2025-01-01''" emptyStore "S ''O. Baumann''"]
    a b show ?thesis by (simp add: normName_O_Baumann)
qed

text \<open>
  The claim as it is written also promises every case variant. The candidate keys
  keep the letter case: after the upsert into an empty store the lookup under
  O. BAUMANN finds nothing.
\<close>

theorem nameMap_case_variant_counterexample:
  "lookupNameJa (\<lambda>s. s)
     (upsertNameMap (\<lambda>s. s) (S ''2025-01-01'') emptyStore (S ''O. Baumann'') (S ''1990-01-01'') baumannJa)
     (S ''O. BAUMANN'') (S ''1990-01-01'') = [] \<and>
   lookupNameJa (\<lambda>s. s)
     (upsertNameMap (\<lambda>s. s) (S ''2025-01-01'') emptyStore (S ''O. Baumann'') (S ''1990-01-01'') baumannJa)
     (S ''O. BAUMANN'') (S ''1990-01-01'') \<noteq> baumannJa"
  by (simp add: name_defs)


end
